theory Spec2Isabelle
  imports Main "HOL-Library.List_Lexorder"
begin

section \<open>Python values used by fan\_art\_roller.py\<close>

text \<open>
  A Python \<open>str\<close> is a sequence of Unicode code points. Isabelle's \<open>char\<close> has eight
  bits only, so a code point is a natural number here and \<open>py\<close> turns an ASCII literal
  into such a string. The order on strings is the lexicographic one of
  \<open>HOL-Library.List_Lexorder\<close>; it is the order of SQLite's default BINARY collation on
  UTF-8 text, since UTF-8 keeps the order of the code points.
\<close>

type_synonym codepoint = nat
type_synonym pystr = "codepoint list"

definition py :: "string \<Rightarrow> pystr" where
  "py s = map of_char s"

text \<open>The code points for which \<open>str.isspace\<close> holds (CPython's whitespace table).\<close>

definition isspace :: "codepoint \<Rightarrow> bool" where
  "isspace c \<longleftrightarrow>
     (9 \<le> c \<and> c \<le> 13) \<or> (28 \<le> c \<and> c \<le> 31) \<or> c = 32 \<or> c = 133 \<or> c = 160 \<or>
     c = 5760 \<or> (8192 \<le> c \<and> c \<le> 8202) \<or> c = 8232 \<or> c = 8233 \<or> c = 8239 \<or>
     c = 8287 \<or> c = 12288"

text \<open>The code points at which \<open>str.splitlines\<close> ends a line.\<close>

definition islinebreak :: "codepoint \<Rightarrow> bool" where
  "islinebreak c \<longleftrightarrow>
     (10 \<le> c \<and> c \<le> 13) \<or> (28 \<le> c \<and> c \<le> 30) \<or> c = 133 \<or> c = 8232 \<or> c = 8233"

text \<open>\<open>word.strip()\<close>: whitespace is dropped at both ends, never inside.\<close>

definition strip :: "pystr \<Rightarrow> pystr" where
  "strip s = rev (dropWhile isspace (rev (dropWhile isspace s)))"

text \<open>
  \<open>text.splitlines()\<close>: the line read so far is \<open>cur\<close>. A line break closes the line,
  a carriage return followed by a line feed counts as one break, and the text after the
  last break is a line only when it is not empty.
\<close>

fun splitlines_from :: "pystr \<Rightarrow> pystr \<Rightarrow> pystr list" where
  "splitlines_from cur [] = (if cur = [] then [] else [cur])"
| "splitlines_from cur [c] = (if islinebreak c then [cur] else [cur @ [c]])"
| "splitlines_from cur (c # d # ds) =
     (if islinebreak c then
        cur # (if c = 13 \<and> d = 10 then splitlines_from [] ds else splitlines_from [] (d # ds))
      else splitlines_from (cur @ [c]) (d # ds))"

definition splitlines :: "pystr \<Rightarrow> pystr list" where
  "splitlines s = splitlines_from [] s"

text \<open>\<open>s.split(sep, maxsplit)\<close> for a separator of one code point.\<close>

fun split_from :: "codepoint \<Rightarrow> nat \<Rightarrow> pystr \<Rightarrow> pystr \<Rightarrow> pystr list" where
  "split_from sep n cur [] = [cur]"
| "split_from sep n cur (c # cs) =
     (if c = sep \<and> 0 < n then cur # split_from sep (n - 1) [] cs
      else split_from sep n (cur @ [c]) cs)"

definition py_split :: "codepoint \<Rightarrow> nat \<Rightarrow> pystr \<Rightarrow> pystr list" where
  "py_split sep maxsplit s = split_from sep maxsplit [] s"

definition startswith :: "pystr \<Rightarrow> pystr \<Rightarrow> bool" where
  "startswith s p \<longleftrightarrow> take (length p) s = p"

datatype py_error = AttributeError | KeyError | IndexError

text \<open>
  \<open>seq[i]\<close>: an index below zero counts from the end, and an index outside the sequence
  raises IndexError.
\<close>

definition getitem :: "'a list \<Rightarrow> int \<Rightarrow> py_error + 'a" where
  "getitem seq i =
     (if 0 \<le> i \<and> i < int (length seq) then Inr (seq ! nat i)
      else if i < 0 \<and> - int (length seq) \<le> i then Inr (seq ! nat (int (length seq) + i))
      else Inl IndexError)"

text \<open>
  \<open>callback.data.split(":", 1)[1]\<close>, the expression with which the callback handlers
  read the list name out of their payload.
\<close>

definition split_colon_1 :: "pystr \<Rightarrow> py_error + pystr" where
  "split_colon_1 data = getitem (py_split 58 1 data) 1"

section \<open>Storage\<close>

text \<open>
  The table \<open>words\<close> of \<open>Storage.init\<close>: rows of \<open>user_id\<close>, \<open>list_name\<close> and \<open>word\<close>, in
  insertion order. The table is a list, so that a row could stand in it twice; that it
  never does is what the PRIMARY KEY over the three columns enforces on INSERT.
\<close>

type_synonym row = "int \<times> pystr \<times> pystr"
type_synonym table = "row list"

datatype sql_error = IntegrityError

definition sql_insert :: "table \<Rightarrow> row \<Rightarrow> sql_error + table" where
  "sql_insert db r = (if r \<in> set db then Inl IntegrityError else Inr (db @ [r]))"

text \<open>DELETE ... WHERE: the cursor's \<open>rowcount\<close> and the table that is left.\<close>

definition sql_delete :: "table \<Rightarrow> (row \<Rightarrow> bool) \<Rightarrow> nat \<times> table" where
  "sql_delete db p = (length (filter p db), filter (\<lambda>r. \<not> p r) db)"

definition get_words :: "table \<Rightarrow> int \<Rightarrow> pystr \<Rightarrow> pystr list" where
  "get_words db user_id list_name =
     sort (map (\<lambda>(u, l, w). w) (filter (\<lambda>(u, l, w). u = user_id \<and> l = list_name) db))"

definition add_word :: "table \<Rightarrow> int \<Rightarrow> pystr \<Rightarrow> pystr \<Rightarrow> bool \<times> table" where
  "add_word db user_id list_name word0 =
     (let word = strip word0 in
      if word = [] then (False, db)
      else case sql_insert db (user_id, list_name, word) of
             Inr db' \<Rightarrow> (True, db')
           | Inl IntegrityError \<Rightarrow> (False, db))"

definition remove_word :: "table \<Rightarrow> int \<Rightarrow> pystr \<Rightarrow> pystr \<Rightarrow> bool \<times> table" where
  "remove_word db user_id list_name word0 =
     (let word = strip word0;
          (rowcount, db') = sql_delete db (\<lambda>r. r = (user_id, list_name, word));
          removed = (0 < rowcount)
      in (removed, db'))"

definition clear_list :: "table \<Rightarrow> int \<Rightarrow> pystr \<Rightarrow> table" where
  "clear_list db user_id list_name =
     snd (sql_delete db (\<lambda>(u, l, w). u = user_id \<and> l = list_name))"

text \<open>
  \<open>random.choice(seq)\<close> returns some element of a sequence that is not empty; the model
  gives the set of the values it can return.
\<close>

definition random_choice :: "'a list \<Rightarrow> 'a set" where
  "random_choice seq = set seq"

text \<open>
  \<open>Storage.roll\<close>: the pairs it can return, each with the table as the call leaves it.
  The method only reads, through \<open>get_words\<close>.
\<close>

definition roll :: "table \<Rightarrow> int \<Rightarrow> ((pystr option \<times> pystr option) \<times> table) set" where
  "roll db user_id =
     (let a = get_words db user_id (py ''A'');
          b = get_words db user_id (py ''B'')
      in if a = [] \<or> b = [] then {((None, None), db)}
         else (\<lambda>(x, y). ((Some x, Some y), db)) ` (random_choice a \<times> random_choice b))"

section \<open>Screens\<close>

text \<open>
  What a handler hands to Telegram. The wording of the texts and buttons is left out; a
  screen keeps the values the source formats into it. \<open>Editor\<close> is \<open>text_edit\<close>: the list
  name, the number of words, the first 25 words and whether more follow.
\<close>

datatype keyboard = kb_main | kb_edit pystr | kb_cancel | make_remove_kb pystr "pystr list"

datatype suffix = Added_skipped nat nat | Removed | Not_found | Nothing_to_remove

datatype screen =
    Main_menu nat nat
  | Editor pystr nat "pystr list" bool
  | Add_prompt pystr
  | Remove_prompt pystr
  | Roll_result pystr pystr
  | Roll_empty
  | Bad_data
  | Bad_index

text \<open>
  \<open>Answer\<close> is \<open>message.answer\<close>, a new message; \<open>Edit_text\<close> rewrites the message with the
  given id (\<open>callback.message.edit_text\<close> and \<open>bot.edit_message_text\<close>).
\<close>

datatype reply = Answer screen "keyboard option" | Edit_text int screen "suffix option" keyboard

text \<open>A handler returns a reply or raises.\<close>

type_synonym outcome = "py_error + reply"

definition text_main :: "table \<Rightarrow> int \<Rightarrow> screen" where
  "text_main db user_id =
     (let a = get_words db user_id (py ''A'');
          b = get_words db user_id (py ''B'')
      in Main_menu (length a) (length b))"

definition text_edit :: "table \<Rightarrow> int \<Rightarrow> pystr \<Rightarrow> screen" where
  "text_edit db user_id list_name =
     (let words = get_words db user_id list_name
      in Editor list_name (length words) (take 25 words) (25 < length words))"

section \<open>The conversation state\<close>

text \<open>
  The \<open>FSMContext\<close> that the dispatcher hands to a handler: the state, and the two entries the handlers keep in its
  data. \<open>state.clear()\<close> drops the state and the data.
\<close>

datatype EditStates = waiting_add

record FSMContext =
  fsm_state :: "EditStates option"
  fsm_list_name :: "pystr option"
  fsm_menu_message_id :: "int option"

definition state_clear :: "FSMContext \<Rightarrow> FSMContext" where
  "state_clear st = \<lparr>fsm_state = None, fsm_list_name = None, fsm_menu_message_id = None\<rparr>"

definition set_state :: "FSMContext \<Rightarrow> EditStates \<Rightarrow> FSMContext" where
  "set_state st s = st\<lparr>fsm_state := Some s\<rparr>"

definition update_data :: "FSMContext \<Rightarrow> pystr \<Rightarrow> int \<Rightarrow> FSMContext" where
  "update_data st list_name menu_message_id =
     st\<lparr>fsm_list_name := Some list_name, fsm_menu_message_id := Some menu_message_id\<rparr>"

section \<open>Handlers\<close>

text \<open>
  A handler takes the conversation state and the table it works on and returns them as
  it leaves them, with its outcome. A handler that raises leaves what it had written
  before. Handlers without a \<open>state\<close> parameter have no conversation state to change.
\<close>

definition cmd_start :: "FSMContext \<Rightarrow> table \<Rightarrow> int \<Rightarrow> FSMContext \<times> table \<times> outcome" where
  "cmd_start st db user_id =
     (state_clear st, db, Inr (Answer (text_main db user_id) (Some kb_main)))"

definition cmd_menu :: "FSMContext \<Rightarrow> table \<Rightarrow> int \<Rightarrow> FSMContext \<times> table \<times> outcome" where
  "cmd_menu st db user_id =
     (state_clear st, db, Inr (Answer (text_main db user_id) (Some kb_main)))"

definition cb_back :: "FSMContext \<Rightarrow> table \<Rightarrow> int \<Rightarrow> int \<Rightarrow> FSMContext \<times> table \<times> outcome" where
  "cb_back st db user_id message_id =
     (state_clear st, db, Inr (Edit_text message_id (text_main db user_id) None kb_main))"

definition cb_edit ::
  "FSMContext \<Rightarrow> table \<Rightarrow> int \<Rightarrow> pystr \<Rightarrow> int \<Rightarrow> FSMContext \<times> table \<times> outcome" where
  "cb_edit st db user_id data message_id =
     (let st' = state_clear st in
      case split_colon_1 data of
        Inl e \<Rightarrow> (st', db, Inl e)
      | Inr list_name \<Rightarrow>
          (st', db,
           Inr (Edit_text message_id (text_edit db user_id list_name) None (kb_edit list_name))))"

definition cb_roll :: "table \<Rightarrow> int \<Rightarrow> int \<Rightarrow> (table \<times> outcome) set" where
  "cb_roll db user_id message_id =
     (\<lambda>((a, b), db').
        (db',
         Inr (case (a, b) of
                (Some x, Some y) \<Rightarrow>
                  if x = [] \<or> y = [] then Edit_text message_id Roll_empty None kb_main
                  else Edit_text message_id (Roll_result x y) None kb_main
              | _ \<Rightarrow> Edit_text message_id Roll_empty None kb_main)))
     ` roll db user_id"

definition cb_add :: "FSMContext \<Rightarrow> pystr \<Rightarrow> int \<Rightarrow> FSMContext \<times> outcome" where
  "cb_add st data message_id =
     (case split_colon_1 data of
        Inl e \<Rightarrow> (st, Inl e)
      | Inr list_name \<Rightarrow>
          (update_data (set_state st waiting_add) list_name message_id,
           Inr (Edit_text message_id (Add_prompt list_name) None kb_cancel)))"

text \<open>The loop of \<open>msg_add\<close> over the lines that are left, with its two counters.\<close>

fun add_lines :: "table \<Rightarrow> int \<Rightarrow> pystr \<Rightarrow> pystr list \<Rightarrow> nat \<Rightarrow> nat \<Rightarrow> nat \<times> nat \<times> table" where
  "add_lines db user_id list_name [] added skipped = (added, skipped, db)"
| "add_lines db user_id list_name (line # lines) added skipped =
     (case add_word db user_id list_name line of
        (ok, db') \<Rightarrow>
          if ok then add_lines db' user_id list_name lines (added + 1) skipped
          else add_lines db' user_id list_name lines added (skipped + 1))"

text \<open>
  \<open>msg_add\<close>. The text of a message is absent when the message is a photo or a sticker;
  \<open>message.text.splitlines()\<close> raises then, before anything is written. Deleting the
  user's message is tried and its failure ignored; it touches neither the table nor the
  state and is left out.
\<close>

definition msg_add ::
  "FSMContext \<Rightarrow> table \<Rightarrow> int \<Rightarrow> pystr option \<Rightarrow> FSMContext \<times> table \<times> outcome" where
  "msg_add st db user_id text =
     (case fsm_list_name st of
        None \<Rightarrow> (st, db, Inl KeyError)
      | Some list_name \<Rightarrow>
     (case fsm_menu_message_id st of
        None \<Rightarrow> (st, db, Inl KeyError)
      | Some menu_message_id \<Rightarrow>
     (case text of
        None \<Rightarrow> (st, db, Inl AttributeError)
      | Some t \<Rightarrow>
          (let lines0 = map strip (splitlines t);
               lines = filter (\<lambda>line. line \<noteq> []) lines0;
               (added, skipped, db') = add_lines db user_id list_name lines 0 0
           in (state_clear st, db',
               Inr (Edit_text menu_message_id (text_edit db' user_id list_name)
                      (Some (Added_skipped added skipped)) (kb_edit list_name)))))))"

definition cb_remove_show_list :: "table \<Rightarrow> int \<Rightarrow> pystr \<Rightarrow> int \<Rightarrow> table \<times> outcome" where
  "cb_remove_show_list db user_id data message_id =
     (case split_colon_1 data of
        Inl e \<Rightarrow> (db, Inl e)
      | Inr list_name \<Rightarrow>
          (let words = get_words db user_id list_name in
           if words = [] then
             (db, Inr (Edit_text message_id (text_edit db user_id list_name)
                         (Some Nothing_to_remove) (kb_edit list_name)))
           else
             (db, Inr (Edit_text message_id (Remove_prompt list_name) None
                         (make_remove_kb list_name words)))))"

definition cb_remove_back :: "table \<Rightarrow> int \<Rightarrow> pystr \<Rightarrow> int \<Rightarrow> table \<times> outcome" where
  "cb_remove_back db user_id data message_id =
     (case split_colon_1 data of
        Inl e \<Rightarrow> (db, Inl e)
      | Inr list_name \<Rightarrow>
          (db, Inr (Edit_text message_id (text_edit db user_id list_name) None
                      (kb_edit list_name))))"

text \<open>
  \<open>cb_do_remove\<close>. Python's \<open>int\<close> is the parameter \<open>int_of\<close>, with \<open>None\<close> for its
  ValueError; what is shown below holds for whatever numerals it accepts.
\<close>

definition cb_do_remove ::
  "(pystr \<Rightarrow> int option) \<Rightarrow> table \<Rightarrow> int \<Rightarrow> pystr \<Rightarrow> int \<Rightarrow> table \<times> outcome" where
  "cb_do_remove int_of db user_id data message_id =
     (let parts = py_split 58 2 data in
      if length parts < 3 then (db, Inr (Answer Bad_data None))
      else
        let list_name = parts ! 1 in
        case int_of (parts ! 2) of
          None \<Rightarrow> (db, Inr (Answer Bad_index None))
        | Some index \<Rightarrow>
            (let words = get_words db user_id list_name in
             if index < 0 \<or> int (length words) \<le> index then
               (db, Inr (Edit_text message_id (text_edit db user_id list_name) None
                           (kb_edit list_name)))
             else
               case getitem words index of
                 Inl e \<Rightarrow> (db, Inl e)
               | Inr word \<Rightarrow>
                   (let (ok, db') = remove_word db user_id list_name word
                    in (db', Inr (Edit_text message_id (text_edit db' user_id list_name)
                                    (Some (if ok then Removed else Not_found))
                                    (kb_edit list_name))))))"

definition cb_clear :: "table \<Rightarrow> int \<Rightarrow> pystr \<Rightarrow> int \<Rightarrow> table \<times> outcome" where
  "cb_clear db user_id data message_id =
     (case split_colon_1 data of
        Inl e \<Rightarrow> (db, Inl e)
      | Inr list_name \<Rightarrow>
          (let db' = clear_list db user_id list_name
           in (db', Inr (Edit_text message_id (text_edit db' user_id list_name) None
                           (kb_edit list_name)))))"

section \<open>The router\<close>

text \<open>
  An update of one user in one chat: a message that the \<open>CommandStart\<close> filter takes,
  one that the \<open>menu\<close> command filter takes, any other message with its text, or a
  callback with its payload and the id of the message whose button was pressed. \<open>route\<close>
  tries the handlers in the order in which the source registers them, on the
  conversation state the dispatcher hands to them; an update that no handler takes
  changes nothing and has no outcome.
\<close>

datatype update = Cmd_start | Cmd_menu | Message "pystr option" | Callback pystr int

definition replied :: "FSMContext \<times> table \<times> outcome \<Rightarrow> FSMContext \<times> table \<times> outcome option" where
  "replied r = (case r of (st, db, out) \<Rightarrow> (st, db, Some out))"

definition stateless :: "FSMContext \<Rightarrow> table \<times> outcome \<Rightarrow> FSMContext \<times> table \<times> outcome option" where
  "stateless st r = (case r of (db, out) \<Rightarrow> (st, db, Some out))"

definition route ::
  "(pystr \<Rightarrow> int option) \<Rightarrow> FSMContext \<Rightarrow> table \<Rightarrow> int \<Rightarrow> update \<Rightarrow>
   (FSMContext \<times> table \<times> outcome option) set" where
  "route int_of st db user_id upd =
     (case upd of
        Cmd_start \<Rightarrow> {replied (cmd_start st db user_id)}
      | Cmd_menu \<Rightarrow> {replied (cmd_menu st db user_id)}
      | Message text \<Rightarrow>
          if fsm_state st = Some waiting_add then {replied (msg_add st db user_id text)}
          else {(st, db, None)}
      | Callback data message_id \<Rightarrow>
          if data = py ''back'' then {replied (cb_back st db user_id message_id)}
          else if startswith data (py ''edit:'') then
            {replied (cb_edit st db user_id data message_id)}
          else if data = py ''roll'' then stateless st ` cb_roll db user_id message_id
          else if startswith data (py ''add:'') then
            {case cb_add st data message_id of (st', out) \<Rightarrow> (st', db, Some out)}
          else if startswith data (py ''remove:'') then
            {stateless st (cb_remove_show_list db user_id data message_id)}
          else if startswith data (py ''remove_back:'') then
            {stateless st (cb_remove_back db user_id data message_id)}
          else if startswith data (py ''do_remove:'') then
            {stateless st (cb_do_remove int_of db user_id data message_id)}
          else if startswith data (py ''clear:'') then
            {stateless st (cb_clear db user_id data message_id)}
          else {(st, db, None)})"

text \<open>
  The bot as a whole: the table and the conversation states. \<open>main\<close> builds the
  dispatcher as \<open>Dispatcher()\<close>, which files a conversation state under the chat and the
  user of an update, and no handler looks at the chat; so there is one state for every
  pair of a chat id and a user id, while the table is keyed by the user id alone.
  \<open>handle\<close> gives the worlds that an update of \<open>user_id\<close> in the chat \<open>chat_id\<close> can lead
  to, with the outcome: the handlers get the state of that chat and user, and the table
  of \<open>from_user.id\<close>.
\<close>

record world =
  store :: table
  sessions :: "int \<times> int \<Rightarrow> FSMContext"

definition handle ::
  "(pystr \<Rightarrow> int option) \<Rightarrow> world \<Rightarrow> int \<Rightarrow> int \<Rightarrow> update \<Rightarrow>
   (world \<times> outcome option) set" where
  "handle int_of w chat_id user_id upd =
     (\<lambda>(st', db', out).
        (\<lparr>store = db', sessions = (sessions w)((chat_id, user_id) := st')\<rparr>, out))
     ` route int_of (sessions w (chat_id, user_id)) (store w) user_id upd"

definition idle :: FSMContext where
  "idle = \<lparr>fsm_state = None, fsm_list_name = None, fsm_menu_message_id = None\<rparr>"

definition start_world :: world where
  "start_world = \<lparr>store = [], sessions = (\<lambda>key. idle)\<rparr>"

inductive reachable_world :: "world \<Rightarrow> bool" where
  start: "reachable_world start_world"
| step:
    "reachable_world w \<Longrightarrow> (w', out) \<in> handle int_of w chat_id user_id upd \<Longrightarrow>
     reachable_world w'"

text \<open>
  The tables that the operations on the word store build from the empty table of
  \<open>Storage.init\<close>: the three writing methods of \<open>Storage\<close>, the bulk add of \<open>msg_add\<close>
  and the removal by position of \<open>cb_do_remove\<close>.
\<close>

inductive reachable :: "table \<Rightarrow> bool" where
  init: "reachable []"
| add: "reachable db \<Longrightarrow> add_word db user_id list_name word = (ok, db') \<Longrightarrow> reachable db'"
| remove: "reachable db \<Longrightarrow> remove_word db user_id list_name word = (ok, db') \<Longrightarrow> reachable db'"
| clear: "reachable db \<Longrightarrow> clear_list db user_id list_name = db' \<Longrightarrow> reachable db'"
| bulk_add: "reachable db \<Longrightarrow> msg_add st db user_id text = (st', db', out) \<Longrightarrow> reachable db'"
| remove_at:
    "reachable db \<Longrightarrow> cb_do_remove int_of db user_id data message_id = (db', out) \<Longrightarrow>
     reachable db'"

text \<open>
  For the examples: the reading of a decimal numeral of ASCII digits, with a minus sign
  or without, as \<open>make_remove_kb\<close> writes the positions into its buttons. Python's \<open>int\<close>
  reads these numerals so; it takes others too, which the examples do not use.
\<close>

fun decimal_from :: "nat \<Rightarrow> pystr \<Rightarrow> nat option" where
  "decimal_from acc [] = Some acc"
| "decimal_from acc (c # cs) =
     (if 48 \<le> c \<and> c \<le> 57 then decimal_from (10 * acc + (c - 48)) cs else None)"

definition int_decimal :: "pystr \<Rightarrow> int option" where
  "int_decimal s =
     (if s = [] then None
      else if hd s = 45 \<and> tl s \<noteq> [] then map_option (\<lambda>n. - int n) (decimal_from 0 (tl s))
      else map_option int (decimal_from 0 s))"

text \<open>
  The bulk add in the words of the specification: \<open>add\<close> is called for each line in
  the order of the input, and the results are kept in that order. \<open>add_lines\<close> above is
  the loop of the source; the two are compared below.
\<close>

fun add_each :: "table \<Rightarrow> int \<Rightarrow> pystr \<Rightarrow> pystr list \<Rightarrow> bool list \<times> table" where
  "add_each db user_id list_name [] = ([], db)"
| "add_each db user_id list_name (line # lines) =
     (case add_word db user_id list_name line of
        (ok, db1) \<Rightarrow>
          (case add_each db1 user_id list_name lines of (oks, db2) \<Rightarrow> (ok # oks, db2)))"

text \<open>
  What the rows of a table built by the program have in common: no row twice, and every
  word as \<open>add_word\<close> stores it, trimmed and not empty.
\<close>

definition stored_ok :: "table \<Rightarrow> bool" where
  "stored_ok db \<longleftrightarrow> distinct db \<and> (\<forall>(u, l, w)\<in>set db. w \<noteq> [] \<and> strip w = w)"

text \<open>
  What the conversation states of the program have in common: a state that waits for
  text has a target list and an anchor in the data, as \<open>cb_add\<close> writes them.
\<close>

definition session_ok :: "FSMContext \<Rightarrow> bool" where
  "session_ok st \<longleftrightarrow>
     (fsm_state st = Some waiting_add \<longrightarrow>
        fsm_list_name st \<noteq> None \<and> fsm_menu_message_id st \<noteq> None)"

section \<open>Trimming\<close>

lemma strip_Nil_iff: "strip w = [] \<longleftrightarrow> (\<forall>c\<in>set w. isspace c)"
proof
  assume "strip w = []"
  then have "\<forall>x\<in>set (dropWhile isspace w). isspace x"
    by (simp add: strip_def)
  then have "dropWhile isspace w = []"
    using hd_dropWhile [of isspace w] hd_in_set [of "dropWhile isspace w"] by blast
  then show "\<forall>c\<in>set w. isspace c" by simp
next
  assume "\<forall>c\<in>set w. isspace c"
  then have "dropWhile isspace w = []" by simp
  then show "strip w = []" by (simp add: strip_def del: dropWhile_eq_Nil_conv)
qed

lemma last_dropWhile_keep: "dropWhile P xs \<noteq> [] \<Longrightarrow> last (dropWhile P xs) = last xs"
  by (induction xs) (auto split: if_splits)

lemma strip_last: "strip w \<noteq> [] \<Longrightarrow> \<not> isspace (last (strip w))"
  using hd_dropWhile [of isspace "rev (dropWhile isspace w)"]
  by (simp add: strip_def last_rev)

lemma strip_hd: "strip w \<noteq> [] \<Longrightarrow> \<not> isspace (hd (strip w))"
proof -
  assume n: "strip w \<noteq> []"
  let ?d = "dropWhile isspace w"
  have d: "?d \<noteq> []"
  proof
    assume "?d = []"
    then have "strip w = []" by (simp add: strip_def del: dropWhile_eq_Nil_conv)
    with n show False by simp
  qed
  from n have "dropWhile isspace (rev ?d) \<noteq> []" by (simp add: strip_def)
  then have "last (dropWhile isspace (rev ?d)) = last (rev ?d)" by (rule last_dropWhile_keep)
  then have "hd (strip w) = hd ?d" using d by (simp add: strip_def hd_rev last_rev)
  then show ?thesis using hd_dropWhile [OF d] by simp
qed

lemma strip_fixed:
  "w = [] \<or> (\<not> isspace (hd w) \<and> \<not> isspace (last w)) \<Longrightarrow> strip w = w"
proof (cases "w = []")
  case True
  then show ?thesis by (simp add: strip_def)
next
  case False
  assume "w = [] \<or> (\<not> isspace (hd w) \<and> \<not> isspace (last w))"
  with False have h: "\<not> isspace (hd w)" and l: "\<not> isspace (last w)" by auto
  from h have 1: "dropWhile isspace w = w" by (simp add: dropWhile_eq_self_iff)
  from l have 2: "dropWhile isspace (rev w) = rev w" by (simp add: dropWhile_eq_self_iff hd_rev)
  show ?thesis by (simp add: strip_def 1 2)
qed

lemma strip_idem: "strip (strip w) = strip w"
  using strip_fixed [of "strip w"] strip_hd [of w] strip_last [of w] by blast

lemma strip_decomp:
  "w = takeWhile isspace w @ strip w @ rev (takeWhile isspace (rev (dropWhile isspace w)))"
proof -
  let ?d = "dropWhile isspace w"
  have "rev ?d = takeWhile isspace (rev ?d) @ dropWhile isspace (rev ?d)" by simp
  then have "?d = rev (dropWhile isspace (rev ?d)) @ rev (takeWhile isspace (rev ?d))"
    by (metis rev_append rev_rev_ident)
  then have "?d = strip w @ rev (takeWhile isspace (rev ?d))" by (simp add: strip_def)
  moreover have "w = takeWhile isspace w @ ?d" by simp
  ultimately show ?thesis by metis
qed

lemma strip_surrounding:
  "\<exists>pre post. w = pre @ strip w @ post \<and> (\<forall>c\<in>set pre. isspace c) \<and> (\<forall>c\<in>set post. isspace c)"
proof (intro exI conjI)
  show "w = takeWhile isspace w @ strip w @ rev (takeWhile isspace (rev (dropWhile isspace w)))"
    by (rule strip_decomp)
  show "\<forall>c\<in>set (takeWhile isspace w). isspace c" by (auto dest: set_takeWhileD)
  show "\<forall>c\<in>set (rev (takeWhile isspace (rev (dropWhile isspace w)))). isspace c"
    by (auto dest: set_takeWhileD)
qed

lemma strip_foo: "strip (py '' foo '') = py ''foo''" "strip (py ''foo'') = py ''foo''"
  by (simp_all add: strip_def py_def isspace_def)

section \<open>Storage.add\_word\<close>

lemma add_word_cases:
  "add_word db u l w =
     (if strip w = [] \<or> (u, l, strip w) \<in> set db then (False, db)
      else (True, db @ [(u, l, strip w)]))"
  by (simp add: add_word_def sql_insert_def Let_def)

lemma add_word_again: "fst (add_word (snd (add_word db u l w)) u l w') = False"
  if "strip w' = strip w"
  using that by (simp add: add_word_cases)

text \<open>
  C1. \<open>add_word\<close> works on the word with the whitespace at its two ends taken off. It
  returns False and leaves the table as it is when nothing is left of the word or when
  the row of the user, the list and the trimmed word is in the table; otherwise it puts
  that row into the table and returns True. So \<open>" foo "\<close> and \<open>"foo"\<close> are added alike,
  and after either of them the other is rejected.
\<close>

theorem add_word_trims_then_rejects_or_inserts:
  "(\<exists>pre post. w = pre @ strip w @ post \<and> (\<forall>c\<in>set pre. isspace c) \<and> (\<forall>c\<in>set post. isspace c))
   \<and> (strip w \<noteq> [] \<longrightarrow> \<not> isspace (hd (strip w)) \<and> \<not> isspace (last (strip w)))
   \<and> add_word db u l w =
       (if strip w = [] \<or> (u, l, strip w) \<in> set db then (False, db)
        else (True, db @ [(u, l, strip w)]))
   \<and> add_word db u l (strip w) = add_word db u l w
   \<and> fst (add_word (snd (add_word db u l w)) u l (strip w)) = False
   \<and> fst (add_word (snd (add_word db u l (strip w))) u l w) = False
   \<and> add_word db u l (py '' foo '') = add_word db u l (py ''foo'')
   \<and> fst (add_word (snd (add_word db u l (py '' foo ''))) u l (py ''foo'')) = False
   \<and> fst (add_word (snd (add_word db u l (py ''foo''))) u l (py '' foo '')) = False"
proof (intro conjI)
  show "\<exists>pre post. w = pre @ strip w @ post \<and> (\<forall>c\<in>set pre. isspace c) \<and> (\<forall>c\<in>set post. isspace c)"
    by (rule strip_surrounding)
  show "strip w \<noteq> [] \<longrightarrow> \<not> isspace (hd (strip w)) \<and> \<not> isspace (last (strip w))"
    using strip_hd strip_last by blast
  show "add_word db u l w =
       (if strip w = [] \<or> (u, l, strip w) \<in> set db then (False, db)
        else (True, db @ [(u, l, strip w)]))"
    by (rule add_word_cases)
  show "add_word db u l (strip w) = add_word db u l w"
    by (simp add: add_word_cases strip_idem)
  show "fst (add_word (snd (add_word db u l w)) u l (strip w)) = False"
    by (rule add_word_again) (rule strip_idem)
  show "fst (add_word (snd (add_word db u l (strip w))) u l w) = False"
    by (rule add_word_again) (simp add: strip_idem)
  show "add_word db u l (py '' foo '') = add_word db u l (py ''foo'')"
    by (simp add: add_word_cases strip_foo)
  show "fst (add_word (snd (add_word db u l (py '' foo ''))) u l (py ''foo'')) = False"
    by (rule add_word_again) (simp add: strip_foo)
  show "fst (add_word (snd (add_word db u l (py ''foo''))) u l (py '' foo '')) = False"
    by (rule add_word_again) (simp add: strip_foo)
qed

theorem add_word_trims_then_rejects_or_inserts_witness:
  "strip (py '' foo '') \<noteq> []
   \<and> \<not> isspace (hd (strip (py '' foo '')))
   \<and> add_word [] 1 (py ''A'') (py '' foo '') = (True, [(1, py ''A'', py ''foo'')])
   \<and> add_word [(1, py ''A'', py ''foo'')] 1 (py ''A'') (py '' foo '')
       = (False, [(1, py ''A'', py ''foo'')])"
proof -
  have n: "strip (py '' foo '') \<noteq> []"
    by (simp add: strip_def py_def isspace_def)
  have "\<not> isspace (hd (strip (py '' foo '')))"
    using add_word_trims_then_rejects_or_inserts [of "py '' foo ''" "[]" 1 "py ''A''"] n
    by blast
  moreover have "add_word [] 1 (py ''A'') (py '' foo '') = (True, [(1, py ''A'', py ''foo'')])"
    using add_word_trims_then_rejects_or_inserts [of "py '' foo ''" "[]" 1 "py ''A''"] n
    by (simp add: strip_foo)
  moreover have "add_word [(1, py ''A'', py ''foo'')] 1 (py ''A'') (py '' foo '')
       = (False, [(1, py ''A'', py ''foo'')])"
    using add_word_trims_then_rejects_or_inserts
            [of "py '' foo ''" "[(1, py ''A'', py ''foo'')]" 1 "py ''A''"]
    by (simp add: strip_foo)
  ultimately show ?thesis using n by blast
qed

section \<open>The table and its views\<close>

lemma set_get_words: "set (get_words db u l) = {w. (u, l, w) \<in> set db}"
  by (auto simp: get_words_def image_iff)

lemma sorted_get_words: "sorted (get_words db u l)"
  by (simp add: get_words_def)

lemma distinct_get_words: "distinct db \<Longrightarrow> distinct (get_words db u l)"
  by (auto simp: get_words_def distinct_map inj_on_def)

lemma get_words_Nil: "get_words [] u l = []"
  by (simp add: get_words_def)

lemma get_words_none: "(\<forall>w. (u, l, w) \<notin> set db) \<Longrightarrow> get_words db u l = []"
  using set_get_words [of db u l] by auto

lemma count_list_distinct: "distinct xs \<Longrightarrow> x \<in> set xs \<Longrightarrow> count_list xs x = 1"
  by (induction xs) (auto simp: count_list_0_iff)

lemma sorted_lexord:
  "sorted (xs :: pystr list) \<longleftrightarrow> sorted_wrt (\<lambda>x y. x = y \<or> (x, y) \<in> lexord {(a, b). a < b}) xs"
  by (induction xs) (auto simp: list_le_def list_less_def)

lemma remove_word_cases:
  "remove_word db u l w =
     (if (u, l, strip w) \<in> set db then (True, filter (\<lambda>r. r \<noteq> (u, l, strip w)) db)
      else (False, db))"
  by (auto simp: remove_word_def sql_delete_def Let_def filter_empty_conv filter_id_conv)

lemma set_remove_word: "set (snd (remove_word db u l w)) = set db - {(u, l, strip w)}"
  by (auto simp: remove_word_cases)

lemma set_clear_list: "set (clear_list db u l) = {r \<in> set db. \<not> (fst r = u \<and> fst (snd r) = l)}"
  by (auto simp: clear_list_def sql_delete_def)

lemma stored_ok_add_word: "stored_ok db \<Longrightarrow> stored_ok (snd (add_word db u l w))"
  by (auto simp: stored_ok_def add_word_cases strip_idem)

lemma stored_ok_remove_word: "stored_ok db \<Longrightarrow> stored_ok (snd (remove_word db u l w))"
  by (auto simp: stored_ok_def remove_word_cases)

lemma stored_ok_clear_list: "stored_ok db \<Longrightarrow> stored_ok (clear_list db u l)"
  by (auto simp: stored_ok_def clear_list_def sql_delete_def)

lemma stored_ok_add_lines:
  "stored_ok db \<Longrightarrow> stored_ok (snd (snd (add_lines db u l ls a s)))"
proof (induction ls arbitrary: db a s)
  case Nil
  then show ?case by simp
next
  case (Cons x xs)
  from Cons.prems have "stored_ok (snd (add_word db u l x))" by (rule stored_ok_add_word)
  then show ?case using Cons.IH by (cases "add_word db u l x") auto
qed

lemma stored_ok_msg_add: "stored_ok db \<Longrightarrow> stored_ok (fst (snd (msg_add st db u text)))"
  using stored_ok_add_lines [of db u]
  by (auto simp: msg_add_def Let_def split: option.splits prod.splits) (metis snd_conv)

lemma stored_ok_cb_do_remove:
  "stored_ok db \<Longrightarrow> stored_ok (fst (cb_do_remove int_of db u data m))"
  using stored_ok_remove_word [of db u]
  by (auto simp: cb_do_remove_def Let_def split: option.splits prod.splits sum.splits)
     (metis snd_conv)

lemma reachable_stored_ok: "reachable db \<Longrightarrow> stored_ok db"
proof (induction rule: reachable.induct)
  case init
  show ?case by (simp add: stored_ok_def)
next
  case (add db user_id list_name word ok db')
  then show ?case using stored_ok_add_word [of db user_id list_name word] by simp
next
  case (remove db user_id list_name word ok db')
  then show ?case using stored_ok_remove_word [of db user_id list_name word] by simp
next
  case (clear db user_id list_name db')
  then show ?case using stored_ok_clear_list by blast
next
  case (bulk_add db st user_id t st' db' out)
  then show ?case using stored_ok_msg_add [of db st user_id t] by simp
next
  case (remove_at db int_of user_id data message_id db' out)
  then show ?case using stored_ok_cb_do_remove [of db int_of user_id data message_id] by simp
qed

lemma distinct_add_word: "distinct db \<Longrightarrow> distinct (snd (add_word db u l w))"
  by (simp add: add_word_cases)

lemma distinct_remove_word: "distinct db \<Longrightarrow> distinct (snd (remove_word db u l w))"
  by (simp add: remove_word_cases)

lemma distinct_clear_list: "distinct db \<Longrightarrow> distinct (clear_list db u l)"
  by (simp add: clear_list_def sql_delete_def)

lemma distinct_add_lines: "distinct db \<Longrightarrow> distinct (snd (snd (add_lines db u l ls a s)))"
proof (induction ls arbitrary: db a s)
  case Nil
  then show ?case by simp
next
  case (Cons x xs)
  from Cons.prems have "distinct (snd (add_word db u l x))" by (rule distinct_add_word)
  then show ?case using Cons.IH by (cases "add_word db u l x") auto
qed

lemma distinct_msg_add: "distinct db \<Longrightarrow> distinct (fst (snd (msg_add st db u t)))"
  using distinct_add_lines [of db u]
  by (auto simp: msg_add_def Let_def split: option.splits prod.splits) (metis snd_conv)

lemma distinct_cb_do_remove: "distinct db \<Longrightarrow> distinct (fst (cb_do_remove int_of db u data m))"
  using distinct_remove_word [of db u]
  by (auto simp: cb_do_remove_def Let_def split: option.splits prod.splits sum.splits)
     (metis snd_conv)

lemma route_store:
  assumes "(st', db', out) \<in> route int_of st db u upd" and "reachable db"
  shows "reachable db'"
proof (cases upd)
  case Cmd_start
  with assms show ?thesis by (simp add: route_def replied_def cmd_start_def)
next
  case Cmd_menu
  with assms show ?thesis by (simp add: route_def replied_def cmd_menu_def)
next
  case (Message t)
  show ?thesis
  proof (cases "fsm_state st = Some waiting_add")
    case True
    with Message assms(1) have "msg_add st db u t = (st', db', the out)"
      by (auto simp: route_def replied_def split: prod.splits)
    with assms(2) show ?thesis by (rule reachable.bulk_add)
  next
    case False
    with Message assms show ?thesis by (simp add: route_def)
  qed
next
  case (Callback data m)
  have unchanged: "db' = db \<Longrightarrow> reachable db'" using assms(2) by simp
  have rem: "cb_do_remove int_of db u data m = (db', x) \<Longrightarrow> reachable db'" for x
    using assms(2) by (rule reachable.remove_at)
  have clr: "cb_clear db u data m = (db', x) \<Longrightarrow> reachable db'" for x
    using assms(2) reachable.clear [of db u _ db']
    by (auto simp: cb_clear_def Let_def split: sum.splits)
  from Callback assms(1) show ?thesis
    using unchanged rem clr
    by (auto simp: route_def replied_def stateless_def cb_back_def cb_edit_def cb_roll_def
          roll_def cb_add_def cb_remove_show_list_def cb_remove_back_def Let_def
          split: if_splits sum.splits prod.splits)
qed

lemma reachable_world_store: "reachable_world w \<Longrightarrow> reachable (store w)"
proof (induction rule: reachable_world.induct)
  case start
  show ?case by (simp add: start_world_def reachable.init)
next
  case (step w w' out int_of chat_id user_id upd)
  then show ?case by (auto simp: handle_def dest: route_store)
qed

lemma snd_remove_word: "snd (remove_word db u l w) = filter (\<lambda>r. r \<noteq> (u, l, strip w)) db"
  by (simp add: remove_word_def sql_delete_def Let_def)

lemma get_words_remove_word_same:
  "get_words (snd (remove_word db u l w)) u l = removeAll (strip w) (get_words db u l)"
proof -
  have "map (\<lambda>(u, l, w). w) (filter (\<lambda>(u', l', w'). u' = u \<and> l' = l)
          (filter (\<lambda>r. r \<noteq> (u, l, strip w)) db))
        = filter (\<lambda>x. x \<noteq> strip w) (map (\<lambda>(u, l, w). w)
          (filter (\<lambda>(u', l', w'). u' = u \<and> l' = l) db))"
    by (induction db) auto
  then have "get_words (filter (\<lambda>r. r \<noteq> (u, l, strip w)) db) u l
        = filter (\<lambda>x. x \<noteq> strip w) (get_words db u l)"
    unfolding get_words_def by (simp only: filter_sort)
  then show ?thesis
    by (simp add: snd_remove_word removeAll_filter_not_eq eq_commute)
qed

lemma get_words_remove_word_other:
  "(u', l') \<noteq> (u, l) \<Longrightarrow> get_words (snd (remove_word db u l w)) u' l' = get_words db u' l'"
proof -
  assume "(u', l') \<noteq> (u, l)"
  then have "filter (\<lambda>(a, b, c). a = u' \<and> b = l') (filter (\<lambda>r. r \<noteq> (u, l, strip w)) db)
        = filter (\<lambda>(a, b, c). a = u' \<and> b = l') db"
    by (induction db) auto
  then show ?thesis by (simp add: get_words_def snd_remove_word)
qed

section \<open>Storage.remove\_word\<close>

text \<open>
  C6. \<open>remove_word\<close> trims the word it is given. When the row of the user, the list
  and the trimmed word is in the table it deletes that row, and nothing else, and returns
  True; when the row is absent it returns False and the table stays as it was. The view
  of the list loses the word, every other list keeps its view. A second removal of the
  same word returns False and changes nothing, so removing a word that is present twice
  gives True and then False.
\<close>

theorem remove_word_deletes_or_reports_absent:
  "remove_word db u l w =
     (if (u, l, strip w) \<in> set db then (True, filter (\<lambda>r. r \<noteq> (u, l, strip w)) db)
      else (False, db))
   \<and> set (snd (remove_word db u l w)) = set db - {(u, l, strip w)}
   \<and> get_words (snd (remove_word db u l w)) u l = removeAll (strip w) (get_words db u l)
   \<and> ((u', l') \<noteq> (u, l) \<longrightarrow>
        get_words (snd (remove_word db u l w)) u' l' = get_words db u' l')
   \<and> ((u, l, strip w) \<in> set db \<longrightarrow>
        fst (remove_word db u l w) = True
        \<and> fst (remove_word (snd (remove_word db u l w)) u l w) = False)
   \<and> remove_word (snd (remove_word db u l w)) u l w = (False, snd (remove_word db u l w))"
proof (intro conjI)
  show "remove_word db u l w =
     (if (u, l, strip w) \<in> set db then (True, filter (\<lambda>r. r \<noteq> (u, l, strip w)) db)
      else (False, db))"
    by (rule remove_word_cases)
  show "set (snd (remove_word db u l w)) = set db - {(u, l, strip w)}"
    by (rule set_remove_word)
  show "get_words (snd (remove_word db u l w)) u l = removeAll (strip w) (get_words db u l)"
    by (rule get_words_remove_word_same)
  show "(u', l') \<noteq> (u, l) \<longrightarrow>
        get_words (snd (remove_word db u l w)) u' l' = get_words db u' l'"
    using get_words_remove_word_other by blast
  have gone: "(u, l, strip w) \<notin> set (snd (remove_word db u l w))"
    by (simp add: set_remove_word)
  show "remove_word (snd (remove_word db u l w)) u l w = (False, snd (remove_word db u l w))"
    using gone remove_word_cases [of "snd (remove_word db u l w)" u l w] by simp
  then show "(u, l, strip w) \<in> set db \<longrightarrow>
        fst (remove_word db u l w) = True
        \<and> fst (remove_word (snd (remove_word db u l w)) u l w) = False"
    by (simp add: remove_word_cases)
qed

theorem remove_word_deletes_or_reports_absent_witness:
  "(1::int, py ''A'', strip (py '' foo '')) \<in> set [(1, py ''A'', py ''foo''), (1, py ''A'', py ''bar'')]
   \<and> (1::int, py ''B'') \<noteq> (1, py ''A'')
   \<and> remove_word [(1, py ''A'', py ''foo''), (1, py ''A'', py ''bar'')] 1 (py ''A'') (py '' foo '')
       = (True, [(1, py ''A'', py ''bar'')])
   \<and> remove_word [(1, py ''A'', py ''bar'')] 1 (py ''A'') (py '' foo '')
       = (False, [(1, py ''A'', py ''bar'')])"
proof -
  have m: "(1::int, py ''A'', strip (py '' foo '')) \<in> set [(1, py ''A'', py ''foo''), (1, py ''A'', py ''bar'')]"
    by (simp add: strip_foo)
  have d: "(1::int, py ''B'') \<noteq> (1, py ''A'')"
    by (simp add: py_def)
  have ne: "py ''bar'' \<noteq> py ''foo''"
    by (simp add: py_def)
  have 1: "remove_word [(1, py ''A'', py ''foo''), (1, py ''A'', py ''bar'')] 1 (py ''A'') (py '' foo '')
       = (True, [(1, py ''A'', py ''bar'')])"
    using remove_word_deletes_or_reports_absent
            [of "[(1, py ''A'', py ''foo''), (1, py ''A'', py ''bar'')]" 1 "py ''A''" "py '' foo ''"
                1 "py ''B''"] m ne
    by (simp add: strip_foo)
  have 2: "remove_word [(1, py ''A'', py ''bar'')] 1 (py ''A'') (py '' foo '')
       = (False, [(1, py ''A'', py ''bar'')])"
    using remove_word_deletes_or_reports_absent
            [of "[(1, py ''A'', py ''bar'')]" 1 "py ''A''" "py '' foo ''" 1 "py ''B''"] ne
    by (simp add: strip_foo)
  show ?thesis using m d 1 2 by blast
qed

lemma reachable_example:
  "reachable [(1, py ''A'', py ''foo''), (1, py ''A'', py ''bar'')]"
proof -
  have "add_word [] 1 (py ''A'') (py '' foo '') = (True, [(1, py ''A'', py ''foo'')])"
    by (simp add: add_word_cases strip_foo) (simp add: py_def)
  then have 1: "reachable [(1, py ''A'', py ''foo'')]"
    using reachable.add [OF reachable.init] by blast
  have "add_word [(1, py ''A'', py ''foo'')] 1 (py ''A'') (py ''bar'')
        = (True, [(1, py ''A'', py ''foo''), (1, py ''A'', py ''bar'')])"
    by (simp add: add_word_cases) (simp add: py_def strip_def isspace_def)
  then show ?thesis
    using reachable.add [OF 1] by blast
qed

section \<open>Storage.get\_words\<close>

text \<open>
  C7. \<open>get_words\<close> returns the words of the user's list, each word of a row of that
  user and list and no other, in ascending lexicographic order. In a table that the
  operations of the program have built no word comes twice, so the order is strict. It
  is a total function: there is no failure, and a user and list without rows have the
  empty sequence.
\<close>

theorem get_words_sorted_without_duplicates:
  "sorted (get_words db u l)
   \<and> sorted_wrt (\<lambda>x y. x = y \<or> (x, y) \<in> lexord {(a, b). a < b}) (get_words db u l)
   \<and> set (get_words db u l) = {w. (u, l, w) \<in> set db}
   \<and> (reachable db \<longrightarrow>
        distinct (get_words db u l)
        \<and> sorted_wrt (\<lambda>x y. (x, y) \<in> lexord {(a, b). a < b}) (get_words db u l))
   \<and> ((\<forall>w. (u, l, w) \<notin> set db) \<longrightarrow> get_words db u l = [])
   \<and> get_words [] u l = []"
proof (intro conjI impI)
  show s: "sorted (get_words db u l)" by (rule sorted_get_words)
  then show "sorted_wrt (\<lambda>x y. x = y \<or> (x, y) \<in> lexord {(a, b). a < b}) (get_words db u l)"
    by (simp add: sorted_lexord)
  show "set (get_words db u l) = {w. (u, l, w) \<in> set db}" by (rule set_get_words)
  show "get_words [] u l = []" by (rule get_words_Nil)
  show "get_words db u l = []" if "\<forall>w. (u, l, w) \<notin> set db"
    using that by (rule get_words_none)
  show d: "distinct (get_words db u l)" if "reachable db"
    using that reachable_stored_ok distinct_get_words by (auto simp: stored_ok_def)
  show "sorted_wrt (\<lambda>x y. (x, y) \<in> lexord {(a, b). a < b}) (get_words db u l)" if "reachable db"
    using s d [OF that] strict_sorted_iff [of "get_words db u l"]
    by (simp add: list_less_def [abs_def])
qed

theorem get_words_sorted_without_duplicates_witness:
  "reachable [(1, py ''A'', py ''foo''), (1, py ''A'', py ''bar'')]
   \<and> (\<forall>w. (2::int, py ''A'', w) \<notin> set [(1, py ''A'', py ''foo''), (1, py ''A'', py ''bar'')])
   \<and> get_words [(1, py ''A'', py ''foo''), (1, py ''A'', py ''bar'')] 1 (py ''A'')
       = [py ''bar'', py ''foo'']
   \<and> distinct (get_words [(1, py ''A'', py ''foo''), (1, py ''A'', py ''bar'')] 1 (py ''A''))
   \<and> get_words [(1, py ''A'', py ''foo''), (1, py ''A'', py ''bar'')] 2 (py ''A'') = []"
proof -
  let ?db = "[(1::int, py ''A'', py ''foo''), (1, py ''A'', py ''bar'')]"
  have r: "reachable ?db" by (rule reachable_example)
  have n: "\<forall>w. (2, py ''A'', w) \<notin> set ?db" by simp
  have v: "get_words ?db 1 (py ''A'') = [py ''bar'', py ''foo'']"
    by (simp add: get_words_def py_def)
  have "distinct (get_words ?db 1 (py ''A''))"
    using get_words_sorted_without_duplicates [of ?db 1 "py ''A''"] r by blast
  moreover have "get_words ?db 2 (py ''A'') = []"
    using get_words_sorted_without_duplicates [of ?db 2 "py ''A''"] n by blast
  ultimately show ?thesis using r n v by blast
qed

section \<open>Uniqueness\<close>

text \<open>
  C2. No table that add, remove, clear, bulk add and removal by position build from the
  empty table holds a row twice, and so no table of a world the router reaches; each of
  the five operations keeps a table without repeated rows that way. In such a table,
  adding a word that is not empty after trimming and is not in the list succeeds, adding
  it again is rejected, and the view of the list then holds the trimmed word once.
\<close>

theorem uniqueness_invariant:
  "(reachable db \<longrightarrow> distinct db)
   \<and> (reachable_world wd \<longrightarrow> distinct (store wd))
   \<and> (distinct db \<longrightarrow>
        distinct (snd (add_word db u l w))
        \<and> distinct (snd (remove_word db u l w))
        \<and> distinct (clear_list db u l)
        \<and> distinct (fst (snd (msg_add st db u t)))
        \<and> distinct (fst (cb_do_remove int_of db u data m)))
   \<and> (reachable db \<and> strip w \<noteq> [] \<and> (u, l, strip w) \<notin> set db \<longrightarrow>
        fst (add_word db u l w) = True
        \<and> fst (add_word (snd (add_word db u l w)) u l w) = False
        \<and> count_list (get_words (snd (add_word (snd (add_word db u l w)) u l w)) u l) (strip w) = 1)"
proof (intro conjI impI)
  show "distinct db" if "reachable db"
    using reachable_stored_ok [OF that] by (simp add: stored_ok_def)
  show "distinct (store wd)" if "reachable_world wd"
    using reachable_stored_ok [OF reachable_world_store [OF that]] by (simp add: stored_ok_def)
  show "distinct (snd (add_word db u l w))" if "distinct db"
    using that by (rule distinct_add_word)
  show "distinct (snd (remove_word db u l w))" if "distinct db"
    using that by (rule distinct_remove_word)
  show "distinct (clear_list db u l)" if "distinct db"
    using that by (rule distinct_clear_list)
  show "distinct (fst (snd (msg_add st db u t)))" if "distinct db"
    using that by (rule distinct_msg_add)
  show "distinct (fst (cb_do_remove int_of db u data m))" if "distinct db"
    using that by (rule distinct_cb_do_remove)
next
  assume a: "reachable db \<and> strip w \<noteq> [] \<and> (u, l, strip w) \<notin> set db"
  then show "fst (add_word db u l w) = True" by (simp add: add_word_cases)
  show "fst (add_word (snd (add_word db u l w)) u l w) = False"
    by (rule add_word_again) simp
  let ?db2 = "snd (add_word (snd (add_word db u l w)) u l w)"
  from a have "distinct db" using reachable_stored_ok by (auto simp: stored_ok_def)
  then have "distinct ?db2" by (intro distinct_add_word)
  then have "distinct (get_words ?db2 u l)" by (rule distinct_get_words)
  moreover from a have "strip w \<in> set (get_words ?db2 u l)"
    by (simp add: set_get_words add_word_cases)
  ultimately show "count_list (get_words ?db2 u l) (strip w) = 1"
    by (rule count_list_distinct)
qed

theorem uniqueness_invariant_witness:
  "reachable [(1, py ''A'', py ''foo''), (1, py ''A'', py ''bar'')]
   \<and> strip (py '' baz '') \<noteq> []
   \<and> (1::int, py ''A'', strip (py '' baz '')) \<notin> set [(1, py ''A'', py ''foo''), (1, py ''A'', py ''bar'')]
   \<and> distinct [(1::int, py ''A'', py ''foo''), (1, py ''A'', py ''bar'')]
   \<and> fst (add_word [(1, py ''A'', py ''foo''), (1, py ''A'', py ''bar'')] 1 (py ''A'') (py '' baz ''))
   \<and> count_list
        (get_words
           (snd (add_word
                  (snd (add_word [(1, py ''A'', py ''foo''), (1, py ''A'', py ''bar'')] 1 (py ''A'')
                         (py '' baz '')))
                  1 (py ''A'') (py '' baz '')))
           1 (py ''A''))
        (strip (py '' baz '')) = 1"
proof -
  let ?db = "[(1::int, py ''A'', py ''foo''), (1, py ''A'', py ''bar'')]"
  have r: "reachable ?db" by (rule reachable_example)
  have b: "strip (py '' baz '') = py ''baz''" by (simp add: strip_def py_def isspace_def)
  have n: "strip (py '' baz '') \<noteq> []" by (simp add: b) (simp add: py_def)
  have f: "(1, py ''A'', strip (py '' baz '')) \<notin> set ?db" by (simp add: b) (simp add: py_def)
  note inst = uniqueness_invariant
                [of ?db start_world 1 "py ''A''" "py '' baz ''" idle None int_decimal "[]" 0]
  have "distinct ?db" using inst r by blast
  moreover have "fst (add_word ?db 1 (py ''A'') (py '' baz ''))" using inst r n f by blast
  moreover have "count_list
        (get_words (snd (add_word (snd (add_word ?db 1 (py ''A'') (py '' baz ''))) 1 (py ''A'')
           (py '' baz ''))) 1 (py ''A'')) (strip (py '' baz '')) = 1"
    using inst r n f by blast
  ultimately show ?thesis using r n f by blast
qed

section \<open>Storage.roll\<close>

lemma roll_empty:
  "get_words db u (py ''A'') = [] \<or> get_words db u (py ''B'') = [] \<Longrightarrow>
   roll db u = {((None, None), db)}"
  by (auto simp: roll_def Let_def)

lemma roll_nonempty:
  "get_words db u (py ''A'') \<noteq> [] \<Longrightarrow> get_words db u (py ''B'') \<noteq> [] \<Longrightarrow>
   roll db u = (\<lambda>(a, b). ((Some a, Some b), db)) `
                 (set (get_words db u (py ''A'')) \<times> set (get_words db u (py ''B'')))"
  by (simp add: roll_def Let_def random_choice_def)

lemma roll_returns: "roll db u \<noteq> {}"
  by (cases "get_words db u (py ''A'') = [] \<or> get_words db u (py ''B'') = []")
     (auto simp: roll_empty roll_nonempty)

lemma roll_absent_iff:
  "(r, db') \<in> roll db u \<Longrightarrow>
   r = (None, None) \<longleftrightarrow> get_words db u (py ''A'') = [] \<or> get_words db u (py ''B'') = []"
  by (cases "get_words db u (py ''A'') = [] \<or> get_words db u (py ''B'') = []")
     (auto simp: roll_empty roll_nonempty)

lemma roll_single:
  "get_words db u (py ''A'') = [a] \<Longrightarrow> get_words db u (py ''B'') = [b] \<Longrightarrow>
   roll db u = {((Some a, Some b), db)}"
  by (simp add: roll_nonempty)

lemma stored_words_nonempty:
  "reachable db \<Longrightarrow> w \<in> set (get_words db u l) \<Longrightarrow> w \<noteq> []"
  using reachable_stored_ok [of db] by (auto simp: stored_ok_def set_get_words)

lemma cb_roll_empty_iff:
  assumes "reachable db" and "(db', out) \<in> cb_roll db u m"
  shows "out = Inr (Edit_text m Roll_empty None kb_main) \<longleftrightarrow>
         get_words db u (py ''A'') = [] \<or> get_words db u (py ''B'') = []"
proof (cases "get_words db u (py ''A'') = [] \<or> get_words db u (py ''B'') = []")
  case True
  with assms(2) show ?thesis by (auto simp: cb_roll_def roll_empty)
next
  case False
  with assms(2) obtain a b where ab: "a \<in> set (get_words db u (py ''A''))"
      "b \<in> set (get_words db u (py ''B''))"
      and out: "out = Inr (if a = [] \<or> b = [] then Edit_text m Roll_empty None kb_main
                   else Edit_text m (Roll_result a b) None kb_main)"
    by (auto simp: cb_roll_def roll_nonempty)
  from ab have "a \<noteq> []" "b \<noteq> []" using stored_words_nonempty [OF assms(1)] by blast+
  with out False show ?thesis by simp
qed

text \<open>
  C3. \<open>roll\<close> always returns. The pair it returns is (None, None) exactly when list A or
  list B of the user is empty at the call, and then nothing else can be returned.
  Otherwise the pairs it can return are the pairs of a word of the user's list A and a
  word of the user's list B, so with one word in each list there is one result. On a
  table built by the program \<open>cb_roll\<close> shows the empty-list screen in exactly that
  case.
\<close>

theorem roll_absent_iff_a_list_is_empty:
  "roll db u \<noteq> {}
   \<and> (\<forall>(r, db')\<in>roll db u.
         r = (None, None) \<longleftrightarrow>
           get_words db u (py ''A'') = [] \<or> get_words db u (py ''B'') = [])
   \<and> (get_words db u (py ''A'') = [] \<or> get_words db u (py ''B'') = [] \<longrightarrow>
         roll db u = {((None, None), db)})
   \<and> (get_words db u (py ''A'') \<noteq> [] \<and> get_words db u (py ''B'') \<noteq> [] \<longrightarrow>
         roll db u = (\<lambda>(a, b). ((Some a, Some b), db)) `
                       ({w. (u, py ''A'', w) \<in> set db} \<times> {w. (u, py ''B'', w) \<in> set db}))
   \<and> (get_words db u (py ''A'') = [a] \<and> get_words db u (py ''B'') = [b] \<longrightarrow>
         roll db u = {((Some a, Some b), db)})
   \<and> (reachable db \<longrightarrow>
         (\<forall>(db', out)\<in>cb_roll db u m.
            out = Inr (Edit_text m Roll_empty None kb_main) \<longleftrightarrow>
              get_words db u (py ''A'') = [] \<or> get_words db u (py ''B'') = []))"
proof (intro conjI impI)
  show "roll db u \<noteq> {}" by (rule roll_returns)
  show "\<forall>(r, db')\<in>roll db u.
         r = (None, None) \<longleftrightarrow>
           get_words db u (py ''A'') = [] \<or> get_words db u (py ''B'') = []"
    using roll_absent_iff by blast
  show "roll db u = {((None, None), db)}"
    if "get_words db u (py ''A'') = [] \<or> get_words db u (py ''B'') = []"
    using that by (rule roll_empty)
  show "roll db u = (\<lambda>(a, b). ((Some a, Some b), db)) `
                       ({w. (u, py ''A'', w) \<in> set db} \<times> {w. (u, py ''B'', w) \<in> set db})"
    if "get_words db u (py ''A'') \<noteq> [] \<and> get_words db u (py ''B'') \<noteq> []"
    using that roll_nonempty [of db u] by (simp add: set_get_words)
  show "roll db u = {((Some a, Some b), db)}"
    if "get_words db u (py ''A'') = [a] \<and> get_words db u (py ''B'') = [b]"
    using that roll_single by blast
  show "\<forall>(db', out)\<in>cb_roll db u m.
            out = Inr (Edit_text m Roll_empty None kb_main) \<longleftrightarrow>
              get_words db u (py ''A'') = [] \<or> get_words db u (py ''B'') = []"
    if "reachable db"
    using cb_roll_empty_iff [OF that] by blast
qed

lemma naruto_views:
  "get_words [(1, py ''A'', py ''Naruto'')] 1 (py ''A'') = [py ''Naruto'']"
  "get_words [(1, py ''A'', py ''Naruto'')] 1 (py ''B'') = []"
  "get_words [(1, py ''A'', py ''Naruto''), (1, py ''B'', py ''Betrayal'')] 1 (py ''A'')
     = [py ''Naruto'']"
  "get_words [(1, py ''A'', py ''Naruto''), (1, py ''B'', py ''Betrayal'')] 1 (py ''B'')
     = [py ''Betrayal'']"
  by (simp_all add: get_words_def py_def)

lemma naruto_add:
  "add_word [(1, py ''A'', py ''Naruto'')] 1 (py ''B'') (py ''Betrayal'')
     = (True, [(1, py ''A'', py ''Naruto''), (1, py ''B'', py ''Betrayal'')])"
  by (simp add: add_word_cases) (simp add: py_def strip_def isspace_def)

theorem roll_absent_iff_a_list_is_empty_witness:
  "get_words [(1, py ''A'', py ''Naruto'')] 1 (py ''B'') = []
   \<and> roll [(1, py ''A'', py ''Naruto'')] 1 = {((None, None), [(1, py ''A'', py ''Naruto'')])}
   \<and> add_word [(1, py ''A'', py ''Naruto'')] 1 (py ''B'') (py ''Betrayal'')
       = (True, [(1, py ''A'', py ''Naruto''), (1, py ''B'', py ''Betrayal'')])
   \<and> get_words [(1, py ''A'', py ''Naruto''), (1, py ''B'', py ''Betrayal'')] 1 (py ''A'')
       = [py ''Naruto'']
   \<and> get_words [(1, py ''A'', py ''Naruto''), (1, py ''B'', py ''Betrayal'')] 1 (py ''B'')
       = [py ''Betrayal'']
   \<and> roll [(1, py ''A'', py ''Naruto''), (1, py ''B'', py ''Betrayal'')] 1
       = {((Some (py ''Naruto''), Some (py ''Betrayal'')),
           [(1, py ''A'', py ''Naruto''), (1, py ''B'', py ''Betrayal'')])}"
proof -
  have "roll [(1, py ''A'', py ''Naruto'')] 1 = {((None, None), [(1, py ''A'', py ''Naruto'')])}"
    using roll_absent_iff_a_list_is_empty
            [of "[(1, py ''A'', py ''Naruto'')]" 1 "py ''Naruto''" "py ''Betrayal''" 0]
          naruto_views(2)
    by blast
  moreover have "roll [(1, py ''A'', py ''Naruto''), (1, py ''B'', py ''Betrayal'')] 1
       = {((Some (py ''Naruto''), Some (py ''Betrayal'')),
           [(1, py ''A'', py ''Naruto''), (1, py ''B'', py ''Betrayal'')])}"
    using roll_absent_iff_a_list_is_empty
            [of "[(1, py ''A'', py ''Naruto''), (1, py ''B'', py ''Betrayal'')]" 1
                "py ''Naruto''" "py ''Betrayal''" 0]
          naruto_views(3,4)
    by blast
  ultimately show ?thesis using naruto_views naruto_add by blast
qed

lemma handle_roll:
  "(w', out) \<in> handle int_of w c u (Callback (py ''roll'') m) \<Longrightarrow> w' = w"
proof -
  have ne: "py ''roll'' \<noteq> py ''back''" "\<not> startswith (py ''roll'') (py ''edit:'')"
    by (simp_all add: py_def startswith_def)
  assume "(w', out) \<in> handle int_of w c u (Callback (py ''roll'') m)"
  then show ?thesis
    by (cases "get_words (store w) u (py ''A'') = [] \<or> get_words (store w) u (py ''B'') = []")
       (auto simp: handle_def route_def ne stateless_def cb_roll_def roll_empty roll_nonempty)
qed

text \<open>
  C10. \<open>roll\<close> only reads: whatever it returns, the table after the call is the table
  before it, so every view of every user and list is the same. The same holds for the
  handler \<open>cb_roll\<close>, and an update with the payload \<open>roll\<close>, in whatever chat, leaves
  the whole world, the table and every conversation state, as it was.
\<close>

theorem roll_leaves_the_store_unchanged:
  "(\<forall>(r, db')\<in>roll db u.
      db' = db \<and> (\<forall>u' l'. get_words db' u' l' = get_words db u' l'))
   \<and> (\<forall>(db', out)\<in>cb_roll db u m. db' = db)
   \<and> (\<forall>(w', out)\<in>handle int_of w c u (Callback (py ''roll'') m). w' = w)"
proof (intro conjI)
  have "db' = db" if "(r, db') \<in> roll db u" for r db'
    using that
    by (cases "get_words db u (py ''A'') = [] \<or> get_words db u (py ''B'') = []")
       (auto simp: roll_empty roll_nonempty)
  then show 1: "\<forall>(r, db')\<in>roll db u.
      db' = db \<and> (\<forall>u' l'. get_words db' u' l' = get_words db u' l')"
    by blast
  then show "\<forall>(db', out)\<in>cb_roll db u m. db' = db"
    by (auto simp: cb_roll_def)
  show "\<forall>(w', out)\<in>handle int_of w c u (Callback (py ''roll'') m). w' = w"
    using handle_roll by blast
qed

theorem roll_leaves_the_store_unchanged_witness:
  "roll [(1, py ''A'', py ''Naruto''), (1, py ''B'', py ''Betrayal'')] 1 \<noteq> {}
   \<and> snd ` roll [(1, py ''A'', py ''Naruto''), (1, py ''B'', py ''Betrayal'')] 1
       = {[(1, py ''A'', py ''Naruto''), (1, py ''B'', py ''Betrayal'')]}"
proof -
  let ?db = "[(1::int, py ''A'', py ''Naruto''), (1, py ''B'', py ''Betrayal'')]"
  have ne: "roll ?db 1 \<noteq> {}" by (rule roll_returns)
  have "\<forall>(r, db')\<in>roll ?db 1. db' = ?db"
    using roll_leaves_the_store_unchanged [of ?db 1 0 int_decimal start_world 10] by blast
  then have "\<forall>x\<in>roll ?db 1. snd x = ?db" by auto
  with ne have "snd ` roll ?db 1 = {?db}" by force
  with ne show ?thesis by blast
qed

section \<open>Bulk add\<close>

lemma add_lines_add_each:
  "add_lines db u l ls a s =
     (a + length (filter (\<lambda>ok. ok) (fst (add_each db u l ls))),
      s + length (filter (\<lambda>ok. \<not> ok) (fst (add_each db u l ls))),
      snd (add_each db u l ls))"
proof (induction ls arbitrary: db a s)
  case Nil
  show ?case by simp
next
  case (Cons x xs)
  obtain ok db1 where 1: "add_word db u l x = (ok, db1)" by (cases "add_word db u l x")
  obtain oks db2 where 2: "add_each db1 u l xs = (oks, db2)" by (cases "add_each db1 u l xs")
  show ?case using Cons.IH [of db1] by (simp add: 1 2)
qed

lemma length_add_each: "length (fst (add_each db u l ls)) = length ls"
proof (induction ls arbitrary: db)
  case Nil
  show ?case by simp
next
  case (Cons x xs)
  obtain ok db1 where 1: "add_word db u l x = (ok, db1)" by (cases "add_word db u l x")
  obtain oks db2 where 2: "add_each db1 u l xs = (oks, db2)" by (cases "add_each db1 u l xs")
  show ?case using Cons.IH [of db1] by (simp add: 1 2)
qed

lemma set_add_each:
  "set (snd (add_each db u l ls)) =
     set db \<union> {(u, l, strip x) |x. x \<in> set ls \<and> strip x \<noteq> []}"
proof (induction ls arbitrary: db)
  case Nil
  show ?case by simp
next
  case (Cons x xs)
  obtain ok db1 where 1: "add_word db u l x = (ok, db1)" by (cases "add_word db u l x")
  obtain oks db2 where 2: "add_each db1 u l xs = (oks, db2)" by (cases "add_each db1 u l xs")
  have "set db1 = set db \<union> (if strip x = [] then {} else {(u, l, strip x)})"
    using 1 by (auto simp: add_word_cases split: if_splits)
  then show ?case using Cons.IH [of db1] by (auto simp: 1 2)
qed

lemma length_snd_add_each:
  "length (snd (add_each db u l ls)) =
     length db + length (filter (\<lambda>ok. ok) (fst (add_each db u l ls)))"
proof (induction ls arbitrary: db)
  case Nil
  show ?case by simp
next
  case (Cons x xs)
  obtain ok db1 where 1: "add_word db u l x = (ok, db1)" by (cases "add_word db u l x")
  obtain oks db2 where 2: "add_each db1 u l xs = (oks, db2)" by (cases "add_each db1 u l xs")
  have "length db1 = length db + (if ok then 1 else 0)"
    using 1 by (auto simp: add_word_cases split: if_splits)
  then show ?case using Cons.IH [of db1] by (simp add: 1 2)
qed

lemma distinct_add_each: "distinct db \<Longrightarrow> distinct (snd (add_each db u l ls))"
  using distinct_add_lines [of db u l ls 0 0] by (simp add: add_lines_add_each)

lemma added_is_number_of_new_rows:
  assumes "distinct db"
  shows "length (filter (\<lambda>ok. ok) (fst (add_each db u l ls))) =
           card (set (snd (add_each db u l ls)) - set db)"
proof -
  let ?db2 = "snd (add_each db u l ls)"
  have sub: "set db \<subseteq> set ?db2" by (auto simp: set_add_each)
  have "card (set ?db2) = length ?db2"
    using distinct_add_each [OF assms] by (rule distinct_card)
  moreover have "card (set db) = length db" using assms by (rule distinct_card)
  moreover have "card (set ?db2 - set db) = card (set ?db2) - card (set db)"
    using sub by (simp add: card_Diff_subset)
  ultimately show ?thesis by (simp add: length_snd_add_each)
qed

lemma surviving_lines:
  "x \<in> set (filter (\<lambda>line. line \<noteq> []) (map strip (splitlines t))) \<Longrightarrow> x \<noteq> [] \<and> strip x = x"
  by (auto simp: strip_idem)

lemma msg_add_text:
  assumes "fsm_list_name st = Some l" and "fsm_menu_message_id st = Some m"
  shows "msg_add st db u (Some t) =
     (let ls = filter (\<lambda>line. line \<noteq> []) (map strip (splitlines t));
          (oks, db2) = add_each db u l ls
      in (state_clear st, db2,
          Inr (Edit_text m (text_edit db2 u l)
                 (Some (Added_skipped (length (filter (\<lambda>ok. ok) oks))
                                      (length (filter (\<lambda>ok. \<not> ok) oks))))
                 (kb_edit l))))"
  using assms by (simp add: msg_add_def Let_def add_lines_add_each split: prod.splits)

lemma x_text:
  "py ''x'' @ [10, 10, 32, 32, 10] @ py ''x'' @ [10] @ py ''y''
     = [120, 10, 10, 32, 32, 10, 120, 10, 121]"
  by (simp add: py_def)

lemma x_splitlines:
  "splitlines [120, 10, 10, 32, 32, 10, 120, 10, 121] = [[120], [], [32, 32], [120], [121]]"
  by (simp add: splitlines_def islinebreak_def)

lemma x_survivors:
  "filter (\<lambda>line. line \<noteq> []) (map strip [[120], [], [32, 32], [120], [121]])
     = [[120], [120], [121]]"
  by (simp add: strip_def isspace_def)

lemma x_loop:
  "add_lines [] 1 [65] [[120], [120], [121]] 0 0 = (2, 1, [(1, [65], [120]), (1, [65], [121])])"
  by (simp add: add_word_cases strip_def isspace_def)

lemma x_editor:
  "text_edit [(1, [65], [120]), (1, [65], [121])] 1 [65] = Editor [65] 2 [[120], [121]] False"
  by (simp add: text_edit_def get_words_def)

lemma x_example:
  "msg_add \<lparr>fsm_state = Some waiting_add, fsm_list_name = Some (py ''A''),
            fsm_menu_message_id = Some 7\<rparr> [] 1
     (Some (py ''x'' @ [10, 10, 32, 32, 10] @ py ''x'' @ [10] @ py ''y''))
   = (\<lparr>fsm_state = None, fsm_list_name = None, fsm_menu_message_id = None\<rparr>,
      [(1, py ''A'', py ''x''), (1, py ''A'', py ''y'')],
      Inr (Edit_text 7 (Editor (py ''A'') 2 [py ''x'', py ''y''] False)
             (Some (Added_skipped 2 1)) (kb_edit (py ''A''))))"
proof -
  have A: "py ''A'' = [65]" and x: "py ''x'' = [120]" and y: "py ''y'' = [121]"
    by (simp_all add: py_def)
  show ?thesis
    unfolding x_text A x y msg_add_def
    by (simp add: x_splitlines x_survivors x_loop x_editor state_clear_def
          del: list.map filter.simps add_lines.simps)
qed

lemma islinebreak_10: "islinebreak 10"
  by (simp add: islinebreak_def)

lemma concat_splitlines_from:
  "concat (splitlines_from cur s) = cur @ filter (\<lambda>c. \<not> islinebreak c) s"
  by (induction cur s rule: splitlines_from.induct) (simp_all add: islinebreak_10)

lemma splitlines_from_no_break:
  "list_all (\<lambda>c. \<not> islinebreak c) cur \<Longrightarrow>
   list_all (list_all (\<lambda>c. \<not> islinebreak c)) (splitlines_from cur s)"
  by (induction cur s rule: splitlines_from.induct) simp_all

lemma splitlines_splits:
  "concat (splitlines t) = filter (\<lambda>c. \<not> islinebreak c) t
   \<and> (\<forall>line\<in>set (splitlines t). \<forall>c\<in>set line. \<not> islinebreak c)"
proof
  show "concat (splitlines t) = filter (\<lambda>c. \<not> islinebreak c) t"
    by (simp add: splitlines_def concat_splitlines_from)
  have "list_all (list_all (\<lambda>c. \<not> islinebreak c)) (splitlines t)"
    unfolding splitlines_def by (rule splitlines_from_no_break) simp
  then show "\<forall>line\<in>set (splitlines t). \<forall>c\<in>set line. \<not> islinebreak c"
    by (simp add: list_all_iff)
qed

lemma survivors_alt:
  "filter (\<lambda>line. line \<noteq> []) (map strip lines) =
     map strip (filter (\<lambda>line. strip line \<noteq> []) lines)"
  by (induction lines) auto

lemma set_add_each_stripped:
  assumes "\<forall>x\<in>set ls. x \<noteq> [] \<and> strip x = x"
  shows "set (snd (add_each db u l ls)) = set db \<union> (\<lambda>x. (u, l, x)) ` set ls"
proof -
  have "{(u, l, strip x) |x. x \<in> set ls \<and> strip x \<noteq> []} = (\<lambda>x. (u, l, x)) ` set ls"
  proof (intro set_eqI iffI)
    fix r
    assume "r \<in> {(u, l, strip x) |x. x \<in> set ls \<and> strip x \<noteq> []}"
    then obtain x where "x \<in> set ls" "r = (u, l, strip x)" by blast
    with assms show "r \<in> (\<lambda>x. (u, l, x)) ` set ls" by simp
  next
    fix r
    assume "r \<in> (\<lambda>x. (u, l, x)) ` set ls"
    then obtain x where "x \<in> set ls" "r = (u, l, x)" by blast
    with assms have "x \<in> set ls \<and> strip x \<noteq> [] \<and> r = (u, l, strip x)" by simp
    then show "r \<in> {(u, l, strip x) |x. x \<in> set ls \<and> strip x \<noteq> []}" by blast
  qed
  then show ?thesis by (simp add: set_add_each)
qed

text \<open>
  C4. For a session with a target list and an anchor and for every submitted text,
  \<open>msg_add\<close> splits the text into lines at the line breaks, trims each line and keeps
  the lines that are not empty then, which are counted nowhere. It calls \<open>add_word\<close> for
  each line kept, in the order of the input; added is the number of calls that returned
  True and skipped the number that returned False, so the two sum to the number of lines
  kept. The table gains the kept lines as words of the list, and on a table without
  repeated rows added is the number of different kept lines that were not in the list.
  The lines x, empty, two blanks, x, y sent into an empty table give added 2 and
  skipped 1.
\<close>

theorem msg_add_adds_each_surviving_line:
  assumes "fsm_list_name st = Some l" and "fsm_menu_message_id st = Some m"
  shows
    "(let lines0 = splitlines t;
          ls = filter (\<lambda>line. line \<noteq> []) (map strip lines0);
          (oks, db2) = add_each db u l ls;
          added = length (filter (\<lambda>ok. ok) oks);
          skipped = length (filter (\<lambda>ok. \<not> ok) oks)
      in msg_add st db u (Some t) =
           (state_clear st, db2,
            Inr (Edit_text m (text_edit db2 u l) (Some (Added_skipped added skipped))
                   (kb_edit l)))
         \<and> concat lines0 = filter (\<lambda>c. \<not> islinebreak c) t
         \<and> (\<forall>line\<in>set lines0. \<forall>c\<in>set line. \<not> islinebreak c)
         \<and> ls = map strip (filter (\<lambda>line. strip line \<noteq> []) lines0)
         \<and> (\<forall>x\<in>set ls. x \<noteq> [] \<and> strip x = x)
         \<and> length oks = length ls
         \<and> added + skipped = length ls
         \<and> set db2 = set db \<union> (\<lambda>x. (u, l, x)) ` set ls
         \<and> (distinct db \<longrightarrow> added = card ((\<lambda>x. (u, l, x)) ` set ls - set db)))
     \<and> splitlines (py ''x'' @ [10, 10, 32, 32, 10] @ py ''x'' @ [10] @ py ''y'')
           = [py ''x'', [], [32, 32], py ''x'', py ''y'']
     \<and> msg_add \<lparr>fsm_state = Some waiting_add, fsm_list_name = Some (py ''A''),
                 fsm_menu_message_id = Some 7\<rparr> [] 1
           (Some (py ''x'' @ [10, 10, 32, 32, 10] @ py ''x'' @ [10] @ py ''y''))
         = (\<lparr>fsm_state = None, fsm_list_name = None, fsm_menu_message_id = None\<rparr>,
            [(1, py ''A'', py ''x''), (1, py ''A'', py ''y'')],
            Inr (Edit_text 7 (Editor (py ''A'') 2 [py ''x'', py ''y''] False)
                   (Some (Added_skipped 2 1)) (kb_edit (py ''A''))))"
proof -
  define ls where "ls = filter (\<lambda>line. line \<noteq> []) (map strip (splitlines t))"
  obtain oks db2 where e: "add_each db u l ls = (oks, db2)" by (cases "add_each db u l ls")
  have ok: "\<forall>x\<in>set ls. x \<noteq> [] \<and> strip x = x"
    unfolding ls_def using surviving_lines by blast
  have 1: "msg_add st db u (Some t) =
           (state_clear st, db2,
            Inr (Edit_text m (text_edit db2 u l)
                   (Some (Added_skipped (length (filter (\<lambda>ok. ok) oks))
                                        (length (filter (\<lambda>ok. \<not> ok) oks))))
                   (kb_edit l)))"
    using msg_add_text [OF assms, of db u t] e by (simp add: ls_def Let_def)
  have 2: "ls = map strip (filter (\<lambda>line. strip line \<noteq> []) (splitlines t))"
    unfolding ls_def by (rule survivors_alt)
  have 3: "length oks = length ls"
    using length_add_each [of db u l ls] e by simp
  have 4: "length (filter (\<lambda>ok. ok) oks) + length (filter (\<lambda>ok. \<not> ok) oks) = length ls"
    using 3 sum_length_filter_compl [of "\<lambda>ok. ok" oks] by simp
  have 5: "set db2 = set db \<union> (\<lambda>x. (u, l, x)) ` set ls"
    using set_add_each_stripped [OF ok, of db u l] e by simp
  have 6: "length (filter (\<lambda>ok. ok) oks) = card ((\<lambda>x. (u, l, x)) ` set ls - set db)"
    if "distinct db"
  proof -
    have "set db2 - set db = (\<lambda>x. (u, l, x)) ` set ls - set db" using 5 by auto
    then show ?thesis using added_is_number_of_new_rows [OF that, of u l ls] e by simp
  qed
  have x: "splitlines (py ''x'' @ [10, 10, 32, 32, 10] @ py ''x'' @ [10] @ py ''y'')
           = [py ''x'', [], [32, 32], py ''x'', py ''y'']"
    unfolding x_text by (simp add: x_splitlines py_def)
  have L: "let lines0 = splitlines t;
          ls = filter (\<lambda>line. line \<noteq> []) (map strip lines0);
          (oks, db2) = add_each db u l ls;
          added = length (filter (\<lambda>ok. ok) oks);
          skipped = length (filter (\<lambda>ok. \<not> ok) oks)
      in msg_add st db u (Some t) =
           (state_clear st, db2,
            Inr (Edit_text m (text_edit db2 u l) (Some (Added_skipped added skipped))
                   (kb_edit l)))
         \<and> concat lines0 = filter (\<lambda>c. \<not> islinebreak c) t
         \<and> (\<forall>line\<in>set lines0. \<forall>c\<in>set line. \<not> islinebreak c)
         \<and> ls = map strip (filter (\<lambda>line. strip line \<noteq> []) lines0)
         \<and> (\<forall>x\<in>set ls. x \<noteq> [] \<and> strip x = x)
         \<and> length oks = length ls
         \<and> added + skipped = length ls
         \<and> set db2 = set db \<union> (\<lambda>x. (u, l, x)) ` set ls
         \<and> (distinct db \<longrightarrow> added = card ((\<lambda>x. (u, l, x)) ` set ls - set db))"
    unfolding Let_def ls_def [symmetric] e prod.case
  proof (intro conjI impI)
    show "concat (splitlines t) = filter (\<lambda>c. \<not> islinebreak c) t"
      using splitlines_splits [of t] by (rule conjunct1)
    show "\<forall>line\<in>set (splitlines t). \<forall>c\<in>set line. \<not> islinebreak c"
      using splitlines_splits [of t] by (rule conjunct2)
  qed (fact 1 2 3 4 5 6 ok)+
  from L x x_example show ?thesis by (intro conjI)
qed

theorem msg_add_adds_each_surviving_line_witness:
  "fsm_list_name \<lparr>fsm_state = Some waiting_add, fsm_list_name = Some (py ''B''),
                   fsm_menu_message_id = Some 3\<rparr> = Some (py ''B'')
   \<and> fsm_menu_message_id \<lparr>fsm_state = Some waiting_add, fsm_list_name = Some (py ''B''),
                   fsm_menu_message_id = Some 3\<rparr> = Some 3
   \<and> distinct [(1::int, py ''B'', py ''y'')]
   \<and> msg_add \<lparr>fsm_state = Some waiting_add, fsm_list_name = Some (py ''B''),
                fsm_menu_message_id = Some 3\<rparr> [(1, py ''B'', py ''y'')] 1
         (Some (py ''x'' @ [10, 10, 32, 32, 10] @ py ''x'' @ [10] @ py ''y''))
       = (\<lparr>fsm_state = None, fsm_list_name = None, fsm_menu_message_id = None\<rparr>,
          [(1, py ''B'', py ''y''), (1, py ''B'', py ''x'')],
          Inr (Edit_text 3 (Editor (py ''B'') 2 [py ''x'', py ''y''] False)
                 (Some (Added_skipped 1 2)) (kb_edit (py ''B''))))"
proof -
  let ?st = "\<lparr>fsm_state = Some waiting_add, fsm_list_name = Some (py ''B''),
              fsm_menu_message_id = Some 3\<rparr>"
  have a: "fsm_list_name ?st = Some (py ''B'')" and b: "fsm_menu_message_id ?st = Some 3"
    by simp_all
  have d: "distinct [(1::int, py ''B'', py ''y'')]" by simp
  have B: "py ''B'' = [66]" and x: "py ''x'' = [120]" and y: "py ''y'' = [121]"
    by (simp_all add: py_def)
  have each: "add_each [(1, py ''B'', py ''y'')] 1 (py ''B'')
                (filter (\<lambda>line. line \<noteq> [])
                   (map strip
                      (splitlines (py ''x'' @ [10, 10, 32, 32, 10] @ py ''x'' @ [10] @ py ''y''))))
                = ([True, False, False], [(1, py ''B'', py ''y''), (1, py ''B'', py ''x'')])"
    unfolding x_text x_splitlines x_survivors
    unfolding B x y
    by (simp add: add_word_cases strip_def isspace_def)
  have ed: "text_edit [(1, py ''B'', py ''y''), (1, py ''B'', py ''x'')] 1 (py ''B'')
              = Editor (py ''B'') 2 [py ''x'', py ''y''] False"
    unfolding B x y by (simp add: text_edit_def get_words_def)
  note T = msg_add_adds_each_surviving_line
            [OF a b, of "py ''x'' @ [10, 10, 32, 32, 10] @ py ''x'' @ [10] @ py ''y''"
               "[(1, py ''B'', py ''y'')]" 1]
  have "msg_add ?st [(1, py ''B'', py ''y'')] 1
         (Some (py ''x'' @ [10, 10, 32, 32, 10] @ py ''x'' @ [10] @ py ''y''))
       = (\<lparr>fsm_state = None, fsm_list_name = None, fsm_menu_message_id = None\<rparr>,
          [(1, py ''B'', py ''y''), (1, py ''B'', py ''x'')],
          Inr (Edit_text 3 (Editor (py ''B'') 2 [py ''x'', py ''y''] False)
                 (Some (Added_skipped 1 2)) (kb_edit (py ''B''))))"
    using T [THEN conjunct1, unfolded Let_def each prod.case, THEN conjunct1]
    by (simp add: ed state_clear_def)
  with a b d show ?thesis by blast
qed

section \<open>Removal by position\<close>

lemma split_from_no_sep:
  "sep \<notin> set a \<Longrightarrow> split_from sep n cur (a @ s) = split_from sep n (cur @ a) s"
  by (induction a arbitrary: cur) simp_all

lemma split_from_zero: "split_from sep 0 cur s = [cur @ s]"
  by (induction s arbitrary: cur) simp_all

lemma py_split_two:
  "58 \<notin> set p \<Longrightarrow> 58 \<notin> set l \<Longrightarrow> py_split 58 2 (p @ [58] @ l @ [58] @ idx) = [p, l, idx]"
proof -
  assume p: "58 \<notin> set p" and l: "58 \<notin> set l"
  have "split_from 58 2 [] (p @ [58] @ l @ [58] @ idx) = split_from 58 2 p ([58] @ l @ [58] @ idx)"
    using split_from_no_sep [OF p, of 2 "[]"] by simp
  also have "\<dots> = p # split_from 58 1 [] (l @ [58] @ idx)" by simp
  also have "split_from 58 1 [] (l @ [58] @ idx) = split_from 58 1 l ([58] @ idx)"
    using split_from_no_sep [OF l, of 1 "[]"] by simp
  also have "\<dots> = l # split_from 58 0 [] idx" by simp
  finally show ?thesis by (simp add: py_split_def split_from_zero)
qed

lemma getitem_in_range:
  "0 \<le> i \<Longrightarrow> i < int (length xs) \<Longrightarrow> getitem xs i = Inr (xs ! nat i)"
  by (simp add: getitem_def)

lemma cb_do_remove_malformed_data:
  "length (py_split 58 2 data) < 3 \<Longrightarrow>
   cb_do_remove int_of db u data m = (db, Inr (Answer Bad_data None))"
  by (simp add: cb_do_remove_def Let_def)

lemma cb_do_remove_malformed_index:
  "py_split 58 2 data = [p, l, idx] \<Longrightarrow> int_of idx = None \<Longrightarrow>
   cb_do_remove int_of db u data m = (db, Inr (Answer Bad_index None))"
  by (simp add: cb_do_remove_def Let_def)

lemma cb_do_remove_out_of_range:
  "py_split 58 2 data = [p, l, idx] \<Longrightarrow> int_of idx = Some i \<Longrightarrow>
   i < 0 \<or> int (length (get_words db u l)) \<le> i \<Longrightarrow>
   cb_do_remove int_of db u data m =
     (db, Inr (Edit_text m (text_edit db u l) None (kb_edit l)))"
  by (simp add: cb_do_remove_def Let_def)

lemma cb_do_remove_in_range:
  "py_split 58 2 data = [p, l, idx] \<Longrightarrow> int_of idx = Some i \<Longrightarrow>
   0 \<le> i \<Longrightarrow> i < int (length (get_words db u l)) \<Longrightarrow>
   cb_do_remove int_of db u data m =
     (let (ok, db') = remove_word db u l (get_words db u l ! nat i)
      in (db', Inr (Edit_text m (text_edit db' u l)
                      (Some (if ok then Removed else Not_found)) (kb_edit l))))"
  by (simp add: cb_do_remove_def Let_def getitem_in_range)

lemma cb_do_remove_returns: "\<exists>db' r. cb_do_remove int_of db u data m = (db', Inr r)"
proof (cases "length (py_split 58 2 data) < 3")
  case True
  then show ?thesis by (simp add: cb_do_remove_malformed_data)
next
  case False
  show ?thesis
  proof (cases "int_of (py_split 58 2 data ! 2)")
    case None
    with False show ?thesis by (simp add: cb_do_remove_def Let_def)
  next
    case (Some i)
    show ?thesis
    proof (cases "i < 0 \<or> int (length (get_words db u (py_split 58 2 data ! 1))) \<le> i")
      case True
      with False Some show ?thesis by (simp add: cb_do_remove_def Let_def)
    next
      case r: False
      then have "getitem (get_words db u (py_split 58 2 data ! 1)) i
                   = Inr (get_words db u (py_split 58 2 data ! 1) ! nat i)"
        by (simp add: getitem_in_range)
      with False Some r show ?thesis
        by (simp add: cb_do_remove_def Let_def split: prod.splits)
    qed
  qed
qed

lemma stored_word_at:
  assumes "reachable db" and "0 \<le> i" and "i < int (length (get_words db u l))"
  shows "(u, l, get_words db u l ! nat i) \<in> set db"
    and "strip (get_words db u l ! nat i) = get_words db u l ! nat i"
proof -
  have "get_words db u l ! nat i \<in> set (get_words db u l)"
    using assms(2,3) by (simp add: nat_less_iff)
  then show m: "(u, l, get_words db u l ! nat i) \<in> set db" by (simp add: set_get_words)
  then show "strip (get_words db u l ! nat i) = get_words db u l ! nat i"
    using reachable_stored_ok [OF assms(1)] by (auto simp: stored_ok_def)
qed

lemma cb_do_remove_removes_that_word:
  assumes "reachable db" and "py_split 58 2 data = [p, l, idx]" and "int_of idx = Some i"
    and "0 \<le> i" and "i < int (length (get_words db u l))"
  shows "cb_do_remove int_of db u data m =
           (filter (\<lambda>r. r \<noteq> (u, l, get_words db u l ! nat i)) db,
            Inr (Edit_text m
                   (text_edit (filter (\<lambda>r. r \<noteq> (u, l, get_words db u l ! nat i)) db) u l)
                   (Some Removed) (kb_edit l)))"
    and "get_words (fst (cb_do_remove int_of db u data m)) u l =
           removeAll (get_words db u l ! nat i) (get_words db u l)"
proof -
  let ?w = "get_words db u l ! nat i"
  note at = stored_word_at [OF assms(1,4,5)]
  have r: "remove_word db u l ?w = (True, filter (\<lambda>r. r \<noteq> (u, l, ?w)) db)"
    using at by (simp add: remove_word_cases)
  show 1: "cb_do_remove int_of db u data m =
           (filter (\<lambda>r. r \<noteq> (u, l, ?w)) db,
            Inr (Edit_text m (text_edit (filter (\<lambda>r. r \<noteq> (u, l, ?w)) db) u l)
                   (Some Removed) (kb_edit l)))"
    using cb_do_remove_in_range [of data p l idx int_of i db u m] assms(2-5) by (simp add: r)
  have "get_words (snd (remove_word db u l ?w)) u l = removeAll (strip ?w) (get_words db u l)"
    by (rule get_words_remove_word_same)
  then show "get_words (fst (cb_do_remove int_of db u data m)) u l =
           removeAll ?w (get_words db u l)"
    by (simp add: 1 r at(2))
qed

text \<open>
  C5. \<open>cb_do_remove\<close> never raises, whatever the payload and whatever numerals \<open>int\<close>
  reads. It fetches the ordered view when the selection arrives. A payload without a
  third part and an index that is no numeral get a notice, an index below zero or not
  below the length of the view gets the plain editor screen; in these cases the table is
  returned as it was. Only an index within the view leads to \<open>remove_word\<close>, for the word
  at that position; on a table built by the program that word, and no other, is removed
  and the screen says so.
\<close>

theorem cb_do_remove_only_in_range:
  "(\<exists>db' r. cb_do_remove int_of db u data m = (db', Inr r))
   \<and> (length (py_split 58 2 data) < 3 \<longrightarrow>
        cb_do_remove int_of db u data m = (db, Inr (Answer Bad_data None)))
   \<and> (58 \<notin> set p \<and> 58 \<notin> set l \<longrightarrow> py_split 58 2 (p @ [58] @ l @ [58] @ idx) = [p, l, idx])
   \<and> (py_split 58 2 data = [p, l, idx] \<longrightarrow>
        (int_of idx = None \<longrightarrow>
           cb_do_remove int_of db u data m = (db, Inr (Answer Bad_index None)))
        \<and> (\<forall>i. int_of idx = Some i \<longrightarrow>
             (i < 0 \<or> int (length (get_words db u l)) \<le> i \<longrightarrow>
                cb_do_remove int_of db u data m =
                  (db, Inr (Edit_text m (text_edit db u l) None (kb_edit l))))
             \<and> (0 \<le> i \<and> i < int (length (get_words db u l)) \<longrightarrow>
                  cb_do_remove int_of db u data m =
                    (let (ok, db') = remove_word db u l (get_words db u l ! nat i)
                     in (db', Inr (Edit_text m (text_edit db' u l)
                                     (Some (if ok then Removed else Not_found)) (kb_edit l))))
                  \<and> (reachable db \<longrightarrow>
                       cb_do_remove int_of db u data m =
                         (filter (\<lambda>r. r \<noteq> (u, l, get_words db u l ! nat i)) db,
                          Inr (Edit_text m
                                 (text_edit
                                    (filter (\<lambda>r. r \<noteq> (u, l, get_words db u l ! nat i)) db) u l)
                                 (Some Removed) (kb_edit l)))
                       \<and> get_words (fst (cb_do_remove int_of db u data m)) u l =
                           removeAll (get_words db u l ! nat i) (get_words db u l)))))"
proof (intro conjI impI allI)
  show "\<exists>db' r. cb_do_remove int_of db u data m = (db', Inr r)"
    by (rule cb_do_remove_returns)
  show "cb_do_remove int_of db u data m = (db, Inr (Answer Bad_data None))"
    if "length (py_split 58 2 data) < 3"
    using that by (rule cb_do_remove_malformed_data)
  show "py_split 58 2 (p @ [58] @ l @ [58] @ idx) = [p, l, idx]"
    if "58 \<notin> set p \<and> 58 \<notin> set l"
    using that py_split_two by blast
next
  assume s: "py_split 58 2 data = [p, l, idx]"
  show "cb_do_remove int_of db u data m = (db, Inr (Answer Bad_index None))"
    if "int_of idx = None"
    using s that cb_do_remove_malformed_index [of data p l idx int_of db u m] by blast
  fix i
  assume i: "int_of idx = Some i"
  show "cb_do_remove int_of db u data m =
          (db, Inr (Edit_text m (text_edit db u l) None (kb_edit l)))"
    if "i < 0 \<or> int (length (get_words db u l)) \<le> i"
    using s i that cb_do_remove_out_of_range [of data p l idx int_of i db u m] by blast
  assume r: "0 \<le> i \<and> i < int (length (get_words db u l))"
  show "cb_do_remove int_of db u data m =
          (let (ok, db') = remove_word db u l (get_words db u l ! nat i)
           in (db', Inr (Edit_text m (text_edit db' u l)
                           (Some (if ok then Removed else Not_found)) (kb_edit l))))"
    using s i r cb_do_remove_in_range [of data p l idx int_of i db u m] by blast
  assume re: "reachable db"
  show "cb_do_remove int_of db u data m =
          (filter (\<lambda>r. r \<noteq> (u, l, get_words db u l ! nat i)) db,
           Inr (Edit_text m
                  (text_edit (filter (\<lambda>r. r \<noteq> (u, l, get_words db u l ! nat i)) db) u l)
                  (Some Removed) (kb_edit l)))"
    using cb_do_remove_removes_that_word(1) [of db data p l idx int_of i u m] re s i r by blast
  show "get_words (fst (cb_do_remove int_of db u data m)) u l =
          removeAll (get_words db u l ! nat i) (get_words db u l)"
    using cb_do_remove_removes_that_word(2) [of db data p l idx int_of i u m] re s i r by blast
qed

theorem cb_do_remove_only_in_range_witness:
  "reachable [(1, py ''A'', py ''foo''), (1, py ''A'', py ''bar'')]
   \<and> get_words [(1, py ''A'', py ''foo''), (1, py ''A'', py ''bar'')] 1 (py ''A'')
       = [py ''bar'', py ''foo'']
   \<and> py_split 58 2 (py ''do_remove:A:1'') = [py ''do_remove'', py ''A'', py ''1'']
   \<and> int_decimal (py ''1'') = Some 1
   \<and> cb_do_remove int_decimal [(1, py ''A'', py ''foo''), (1, py ''A'', py ''bar'')] 1
         (py ''do_remove:A:1'') 5
       = ([(1, py ''A'', py ''bar'')],
          Inr (Edit_text 5 (Editor (py ''A'') 1 [py ''bar''] False) (Some Removed)
                 (kb_edit (py ''A''))))
   \<and> int_decimal (py ''-1'') = Some (- 1)
   \<and> cb_do_remove int_decimal [(1, py ''A'', py ''foo''), (1, py ''A'', py ''bar'')] 1
         (py ''do_remove:A:-1'') 5
       = ([(1, py ''A'', py ''foo''), (1, py ''A'', py ''bar'')],
          Inr (Edit_text 5 (Editor (py ''A'') 2 [py ''bar'', py ''foo''] False) None
                 (kb_edit (py ''A''))))
   \<and> int_decimal (py ''2'') = Some 2
   \<and> cb_do_remove int_decimal [(1, py ''A'', py ''foo''), (1, py ''A'', py ''bar'')] 1
         (py ''do_remove:A:2'') 5
       = ([(1, py ''A'', py ''foo''), (1, py ''A'', py ''bar'')],
          Inr (Edit_text 5 (Editor (py ''A'') 2 [py ''bar'', py ''foo''] False) None
                 (kb_edit (py ''A''))))
   \<and> int_decimal (py ''x'') = None
   \<and> cb_do_remove int_decimal [(1, py ''A'', py ''foo''), (1, py ''A'', py ''bar'')] 1
         (py ''do_remove:A:x'') 5
       = ([(1, py ''A'', py ''foo''), (1, py ''A'', py ''bar'')], Inr (Answer Bad_index None))
   \<and> cb_do_remove int_decimal [(1, py ''A'', py ''foo''), (1, py ''A'', py ''bar'')] 1
         (py ''do_remove:A'') 5
       = ([(1, py ''A'', py ''foo''), (1, py ''A'', py ''bar'')], Inr (Answer Bad_data None))"
proof -
  let ?db = "[(1::int, py ''A'', py ''foo''), (1, py ''A'', py ''bar'')]"
  let ?p = "py ''do_remove''" and ?l = "py ''A''"
  have re: "reachable ?db" by (rule reachable_example)
  have w: "get_words ?db 1 ?l = [py ''bar'', py ''foo'']"
    by (simp add: get_words_def py_def)
  have ne: "py ''foo'' \<noteq> py ''bar''" by (simp add: py_def)
  have ed: "text_edit ?db 1 ?l = Editor ?l 2 [py ''bar'', py ''foo''] False"
    by (simp add: text_edit_def w)
  have ed1: "text_edit [(1, ?l, py ''bar'')] 1 ?l = Editor ?l 1 [py ''bar''] False"
    by (simp add: text_edit_def get_words_def)
  have s1: "py_split 58 2 (py ''do_remove:A:1'') = [?p, ?l, py ''1'']"
    and s2: "py_split 58 2 (py ''do_remove:A:-1'') = [?p, ?l, py ''-1'']"
    and s3: "py_split 58 2 (py ''do_remove:A:2'') = [?p, ?l, py ''2'']"
    and s4: "py_split 58 2 (py ''do_remove:A:x'') = [?p, ?l, py ''x'']"
    and s5: "length (py_split 58 2 (py ''do_remove:A'')) < 3"
    by (simp_all add: py_split_def py_def)
  have n1: "int_decimal (py ''1'') = Some 1"
    and n2: "int_decimal (py ''-1'') = Some (- 1)"
    and n3: "int_decimal (py ''2'') = Some 2"
    and n4: "int_decimal (py ''x'') = None"
    by (simp_all add: int_decimal_def py_def)
  have r1: "0 \<le> (1::int) \<and> 1 < int (length (get_words ?db 1 ?l))"
    and r2: "(- 1::int) < 0 \<or> int (length (get_words ?db 1 ?l)) \<le> - 1"
    and r3: "(2::int) < 0 \<or> int (length (get_words ?db 1 ?l)) \<le> 2"
    by (simp_all add: w)
  note T = cb_do_remove_only_in_range [of int_decimal ?db 1 _ 5 ?p ?l]
  have "cb_do_remove int_decimal ?db 1 (py ''do_remove:A:1'') 5
          = (filter (\<lambda>r. r \<noteq> (1, ?l, get_words ?db 1 ?l ! nat 1)) ?db,
             Inr (Edit_text 5
                    (text_edit (filter (\<lambda>r. r \<noteq> (1, ?l, get_words ?db 1 ?l ! nat 1)) ?db) 1 ?l)
                    (Some Removed) (kb_edit ?l)))"
    using T [of "py ''do_remove:A:1''" "py ''1''"] s1 n1 r1 re by blast
  then have c1: "cb_do_remove int_decimal ?db 1 (py ''do_remove:A:1'') 5
          = ([(1, ?l, py ''bar'')],
             Inr (Edit_text 5 (Editor ?l 1 [py ''bar''] False) (Some Removed) (kb_edit ?l)))"
    by (simp add: w ne ne [symmetric] ed1)
  have c2: "cb_do_remove int_decimal ?db 1 (py ''do_remove:A:-1'') 5
          = (?db, Inr (Edit_text 5 (Editor ?l 2 [py ''bar'', py ''foo''] False) None (kb_edit ?l)))"
    using T [of "py ''do_remove:A:-1''" "py ''-1''"] s2 n2 r2 unfolding ed [symmetric] by blast
  have c3: "cb_do_remove int_decimal ?db 1 (py ''do_remove:A:2'') 5
          = (?db, Inr (Edit_text 5 (Editor ?l 2 [py ''bar'', py ''foo''] False) None (kb_edit ?l)))"
    using T [of "py ''do_remove:A:2''" "py ''2''"] s3 n3 r3 unfolding ed [symmetric] by blast
  have c4: "cb_do_remove int_decimal ?db 1 (py ''do_remove:A:x'') 5
          = (?db, Inr (Answer Bad_index None))"
    using T [of "py ''do_remove:A:x''" "py ''x''"] s4 n4 by blast
  have c5: "cb_do_remove int_decimal ?db 1 (py ''do_remove:A'') 5
          = (?db, Inr (Answer Bad_data None))"
    using T [of "py ''do_remove:A''" "[]"] s5 by blast
  show ?thesis
    using re w s1 n1 c1 n2 c2 n3 c3 n4 c4 c5 by (intro conjI)
qed

section \<open>Sessions\<close>

lemma state_clear_idle: "state_clear st = idle"
  by (simp add: state_clear_def idle_def)

lemma startswith_iff: "startswith d p \<longleftrightarrow> (\<exists>r. d = p @ r)"
proof
  assume "startswith d p"
  then have "d = p @ drop (length p) d"
    unfolding startswith_def by (metis append_take_drop_id)
  then show "\<exists>r. d = p @ r" ..
next
  assume "\<exists>r. d = p @ r"
  then show "startswith d p" by (auto simp: startswith_def)
qed

lemma split_colon_1_add: "split_colon_1 (py ''add:'' @ l) = Inr l"
proof -
  have "split_from 58 1 [] (py ''add:'' @ l) = [py ''add'', l]"
    by (simp add: py_def split_from_zero)
  then show ?thesis by (simp add: split_colon_1_def py_split_def getitem_def)
qed

lemma cb_add_add:
  "cb_add st (py ''add:'' @ l) m =
     (\<lparr>fsm_state = Some waiting_add, fsm_list_name = Some l, fsm_menu_message_id = Some m\<rparr>,
      Inr (Edit_text m (Add_prompt l) None kb_cancel))"
  by (simp add: cb_add_def split_colon_1_add set_state_def update_data_def)

lemma add_prefix_routes:
  "py ''add:'' @ l \<noteq> py ''back''"
  "\<not> startswith (py ''add:'' @ l) (py ''edit:'')"
  "py ''add:'' @ l \<noteq> py ''roll''"
  "startswith (py ''add:'' @ l) (py ''add:'')"
  by (simp_all add: py_def startswith_def)

lemma route_add:
  "route int_of st db u (Callback (py ''add:'' @ l) m) =
     {(\<lparr>fsm_state = Some waiting_add, fsm_list_name = Some l, fsm_menu_message_id = Some m\<rparr>,
       db, Some (Inr (Edit_text m (Add_prompt l) None kb_cancel)))}"
  by (simp add: route_def add_prefix_routes cb_add_add)

lemma route_message_waiting:
  "fsm_state st = Some waiting_add \<Longrightarrow>
   route int_of st db u (Message t) = {replied (msg_add st db u t)}"
  by (simp add: route_def)

lemma route_session:
  assumes "(st', db', out) \<in> route int_of st db u upd"
  shows "st' = st \<or> st' = idle \<or>
         (fsm_state st' = Some waiting_add \<and> fsm_list_name st' \<noteq> None
            \<and> fsm_menu_message_id st' \<noteq> None)"
proof (cases upd)
  case Cmd_start
  with assms show ?thesis by (simp add: route_def replied_def cmd_start_def state_clear_idle)
next
  case Cmd_menu
  with assms show ?thesis by (simp add: route_def replied_def cmd_menu_def state_clear_idle)
next
  case (Message t)
  with assms show ?thesis
    by (auto simp: route_def replied_def msg_add_def Let_def state_clear_idle
          split: if_splits option.splits prod.splits)
next
  case (Callback d m)
  show ?thesis
  proof (cases "d \<noteq> py ''back'' \<and> \<not> startswith d (py ''edit:'') \<and> d \<noteq> py ''roll''
                 \<and> startswith d (py ''add:'')")
    case True
    then obtain l where "d = py ''add:'' @ l" by (auto simp: startswith_iff)
    with Callback assms show ?thesis by (simp add: route_add)
  next
    case False
    with Callback assms show ?thesis
      by (auto simp: route_def replied_def stateless_def cb_back_def cb_edit_def Let_def
            state_clear_idle split: if_splits sum.splits prod.splits)
  qed
qed

lemma session_ok_route:
  "(st', db', out) \<in> route int_of st db u upd \<Longrightarrow> session_ok st \<Longrightarrow> session_ok st'"
  using route_session [of st' db' out int_of st db u upd]
  by (auto simp: session_ok_def idle_def)

lemma sessions_handle:
  "(w', out) \<in> handle int_of w c u upd \<Longrightarrow>
   \<exists>st' db'. (st', db', out) \<in> route int_of (sessions w (c, u)) (store w) u upd
     \<and> sessions w' = (sessions w)((c, u) := st') \<and> store w' = db'"
  by (auto simp: handle_def)

lemma reachable_world_session_ok: "reachable_world w \<Longrightarrow> session_ok (sessions w k)"
proof (induction arbitrary: k rule: reachable_world.induct)
  case start
  show ?case by (simp add: start_world_def session_ok_def idle_def)
next
  case (step w w' out int_of chat_id user_id upd)
  from step.hyps(2) obtain st' db' where
    r: "(st', db', out) \<in> route int_of (sessions w (chat_id, user_id)) (store w) user_id upd"
    and s: "sessions w' = (sessions w)((chat_id, user_id) := st')"
    using sessions_handle by blast
  have "session_ok st'" using r step.IH by (rule session_ok_route)
  then show ?case using s step.IH [of k] by simp
qed

lemma get_words_add_word_other:
  "(u', l') \<noteq> (u, l) \<Longrightarrow> get_words (snd (add_word db u l w)) u' l' = get_words db u' l'"
  by (auto simp: add_word_cases get_words_def)

lemma get_words_add_each_other:
  "(u', l') \<noteq> (u, l) \<Longrightarrow> get_words (snd (add_each db u l ls)) u' l' = get_words db u' l'"
proof (induction ls arbitrary: db)
  case Nil
  show ?case by simp
next
  case (Cons x xs)
  obtain ok db1 where 1: "add_word db u l x = (ok, db1)" by (cases "add_word db u l x")
  obtain oks db2 where 2: "add_each db1 u l xs = (oks, db2)" by (cases "add_each db1 u l xs")
  have "get_words db1 u' l' = get_words db u' l'"
    using get_words_add_word_other [OF Cons.prems, of db x] 1 by simp
  then show ?case using Cons.IH [OF Cons.prems, of db1] by (simp add: 1 2)
qed

lemma msg_add_second_session:
  fixes t :: pystr
  defines "ls \<equiv> filter (\<lambda>line. line \<noteq> []) (map strip (splitlines t))"
  assumes st2: "st2 = \<lparr>fsm_state = Some waiting_add, fsm_list_name = Some l2,
                       fsm_menu_message_id = Some m2\<rparr>"
    and r: "msg_add st2 db u (Some t) = (st3, db3, out)"
  shows "st3 = idle"
    and "\<exists>a s. out = Inr (Edit_text m2 (text_edit db3 u l2) (Some (Added_skipped a s))
                         (kb_edit l2))"
    and "set db3 = set db \<union> (\<lambda>x. (u, l2, x)) ` set ls"
    and "(u', l') \<noteq> (u, l2) \<Longrightarrow> get_words db3 u' l' = get_words db u' l'"
proof -
  obtain oks db2 where e: "add_each db u l2 ls = (oks, db2)" by (cases "add_each db u l2 ls")
  have a: "fsm_list_name st2 = Some l2" and b: "fsm_menu_message_id st2 = Some m2"
    by (simp_all add: st2)
  have m: "msg_add st2 db u (Some t) =
        (state_clear st2, db2,
         Inr (Edit_text m2 (text_edit db2 u l2)
                (Some (Added_skipped (length (filter (\<lambda>ok. ok) oks))
                                     (length (filter (\<lambda>ok. \<not> ok) oks))))
                (kb_edit l2)))"
    using msg_add_text [OF a b, of db u t] e by (simp add: ls_def Let_def)
  from m r have 3: "st3 = state_clear st2" and d: "db3 = db2"
    and o: "out = Inr (Edit_text m2 (text_edit db2 u l2)
                (Some (Added_skipped (length (filter (\<lambda>ok. ok) oks))
                                     (length (filter (\<lambda>ok. \<not> ok) oks))))
                (kb_edit l2))"
    by simp_all
  show "st3 = idle" using 3 by (simp add: state_clear_idle)
  show "\<exists>a s. out = Inr (Edit_text m2 (text_edit db3 u l2) (Some (Added_skipped a s))
                         (kb_edit l2))"
    using o d by blast
  have ok: "\<forall>x\<in>set ls. x \<noteq> [] \<and> strip x = x"
    unfolding ls_def using surviving_lines by blast
  show "set db3 = set db \<union> (\<lambda>x. (u, l2, x)) ` set ls"
    using set_add_each_stripped [OF ok, of db u l2] e d by simp
  show "get_words db3 u' l' = get_words db u' l'" if "(u', l') \<noteq> (u, l2)"
    using get_words_add_each_other [OF that, of db ls] e d by simp
qed

lemma handle_add:
  "handle int_of w c u (Callback (py ''add:'' @ l) m) =
     {(\<lparr>store = store w,
        sessions = (sessions w)
          ((c, u) := \<lparr>fsm_state = Some waiting_add, fsm_list_name = Some l,
                       fsm_menu_message_id = Some m\<rparr>)\<rparr>,
       Some (Inr (Edit_text m (Add_prompt l) None kb_cancel)))}"
  by (simp add: handle_def route_add)

lemma handle_message_waiting:
  "fsm_state (sessions w (c, u)) = Some waiting_add \<Longrightarrow>
   handle int_of w c u (Message t) =
     {(\<lparr>store = fst (snd (msg_add (sessions w (c, u)) (store w) u t)),
        sessions = (sessions w)((c, u) := fst (msg_add (sessions w (c, u)) (store w) u t))\<rparr>,
       Some (snd (snd (msg_add (sessions w (c, u)) (store w) u t))))}"
  by (simp add: handle_def route_message_waiting replied_def split: prod.splits)

lemma handle_message_not_waiting:
  "fsm_state (sessions w (c, u)) \<noteq> Some waiting_add \<Longrightarrow>
   handle int_of w c u (Message t) = {(w, None)}"
  by (simp add: handle_def route_def)

lemma handle_other_key:
  "(w', out) \<in> handle int_of w c' u' upd \<Longrightarrow> (c', u') \<noteq> (c, u) \<Longrightarrow>
   sessions w' (c, u) = sessions w (c, u)"
  by (auto simp: handle_def)

lemma example_literals:
  "py ''add:A'' = py ''add:'' @ py ''A''" "py ''add:B'' = py ''add:'' @ py ''B''"
  by (simp_all add: py_def)

lemma msg_add_x_into_A:
  "msg_add \<lparr>fsm_state = Some waiting_add, fsm_list_name = Some (py ''A''),
              fsm_menu_message_id = Some 7\<rparr> [] 1 (Some (py ''x''))
     = (idle, [(1, py ''A'', py ''x'')],
        Inr (Edit_text 7 (Editor (py ''A'') 1 [py ''x''] False) (Some (Added_skipped 1 0))
               (kb_edit (py ''A''))))"
proof -
  have A: "py ''A'' = [65]" and x: "py ''x'' = [120]" by (simp_all add: py_def)
  have lines: "filter (\<lambda>line. line \<noteq> []) (map strip (splitlines [120])) = [[120]]"
    by (simp add: splitlines_def islinebreak_def strip_def isspace_def)
  have loop: "add_lines [] 1 [65] [[120]] 0 0 = (1, 0, [(1, [65], [120])])"
    by (simp add: add_word_cases strip_def isspace_def)
  have ed: "text_edit [(1, [65], [120])] 1 [65] = Editor [65] 1 [[120]] False"
    by (simp add: text_edit_def get_words_def)
  show ?thesis
    unfolding A x msg_add_def
    by (simp add: lines loop ed state_clear_idle del: list.map filter.simps add_lines.simps)
qed

text \<open>
  C8, as stated, fails when the second start comes from another chat. User 1 starts an
  add on list A in chat 10, from the message 7, and then an add on list B in chat 20,
  from the message 8. The dispatcher keeps the two states apart: the user is awaited to
  send text in both chats, so two sessions of one user are live, and the text \<open>x\<close> sent
  in chat 10 goes into list A and is answered at the message 7, the list and the anchor
  of the first start.
\<close>

theorem start_in_another_chat_keeps_the_first_session:
  "handle int_decimal start_world 10 1 (Callback (py ''add:A'') 7) =
     {(\<lparr>store = [],
        sessions = (sessions start_world)
          ((10, 1) := \<lparr>fsm_state = Some waiting_add, fsm_list_name = Some (py ''A''),
              fsm_menu_message_id = Some 7\<rparr>)\<rparr>,
       Some (Inr (Edit_text 7 (Add_prompt (py ''A'')) None kb_cancel)))}
   \<and> handle int_decimal
       \<lparr>store = [],
        sessions = (sessions start_world)
          ((10, 1) := \<lparr>fsm_state = Some waiting_add, fsm_list_name = Some (py ''A''),
              fsm_menu_message_id = Some 7\<rparr>)\<rparr>
       20 1 (Callback (py ''add:B'') 8) =
     {(\<lparr>store = [],
        sessions = (sessions start_world)
          ((10, 1) := \<lparr>fsm_state = Some waiting_add, fsm_list_name = Some (py ''A''),
              fsm_menu_message_id = Some 7\<rparr>,
           (20, 1) := \<lparr>fsm_state = Some waiting_add, fsm_list_name = Some (py ''B''),
              fsm_menu_message_id = Some 8\<rparr>)\<rparr>,
       Some (Inr (Edit_text 8 (Add_prompt (py ''B'')) None kb_cancel)))}
   \<and> fsm_state (sessions
       \<lparr>store = [],
        sessions = (sessions start_world)
          ((10, 1) := \<lparr>fsm_state = Some waiting_add, fsm_list_name = Some (py ''A''),
              fsm_menu_message_id = Some 7\<rparr>,
           (20, 1) := \<lparr>fsm_state = Some waiting_add, fsm_list_name = Some (py ''B''),
              fsm_menu_message_id = Some 8\<rparr>)\<rparr> (10, 1)) = Some waiting_add
   \<and> fsm_state (sessions
       \<lparr>store = [],
        sessions = (sessions start_world)
          ((10, 1) := \<lparr>fsm_state = Some waiting_add, fsm_list_name = Some (py ''A''),
              fsm_menu_message_id = Some 7\<rparr>,
           (20, 1) := \<lparr>fsm_state = Some waiting_add, fsm_list_name = Some (py ''B''),
              fsm_menu_message_id = Some 8\<rparr>)\<rparr> (20, 1)) = Some waiting_add
   \<and> handle int_decimal
       \<lparr>store = [],
        sessions = (sessions start_world)
          ((10, 1) := \<lparr>fsm_state = Some waiting_add, fsm_list_name = Some (py ''A''),
              fsm_menu_message_id = Some 7\<rparr>,
           (20, 1) := \<lparr>fsm_state = Some waiting_add, fsm_list_name = Some (py ''B''),
              fsm_menu_message_id = Some 8\<rparr>)\<rparr>
       10 1 (Message (Some (py ''x''))) =
     {(\<lparr>store = [(1, py ''A'', py ''x'')],
        sessions = (sessions start_world)
          ((10, 1) := \<lparr>fsm_state = Some waiting_add, fsm_list_name = Some (py ''A''),
              fsm_menu_message_id = Some 7\<rparr>,
           (20, 1) := \<lparr>fsm_state = Some waiting_add, fsm_list_name = Some (py ''B''),
              fsm_menu_message_id = Some 8\<rparr>,
           (10, 1) := idle)\<rparr>,
       Some (Inr (Edit_text 7 (Editor (py ''A'') 1 [py ''x''] False) (Some (Added_skipped 1 0))
                (kb_edit (py ''A'')))))}"
proof (intro conjI)
  show "handle int_decimal start_world 10 1 (Callback (py ''add:A'') 7) =
     {(\<lparr>store = [],
        sessions = (sessions start_world)
          ((10, 1) := \<lparr>fsm_state = Some waiting_add, fsm_list_name = Some (py ''A''),
              fsm_menu_message_id = Some 7\<rparr>)\<rparr>,
       Some (Inr (Edit_text 7 (Add_prompt (py ''A'')) None kb_cancel)))}"
    unfolding example_literals handle_add by (simp add: start_world_def)
  show "handle int_decimal
       \<lparr>store = [],
        sessions = (sessions start_world)
          ((10, 1) := \<lparr>fsm_state = Some waiting_add, fsm_list_name = Some (py ''A''),
              fsm_menu_message_id = Some 7\<rparr>)\<rparr>
       20 1 (Callback (py ''add:B'') 8) =
     {(\<lparr>store = [],
        sessions = (sessions start_world)
          ((10, 1) := \<lparr>fsm_state = Some waiting_add, fsm_list_name = Some (py ''A''),
              fsm_menu_message_id = Some 7\<rparr>,
           (20, 1) := \<lparr>fsm_state = Some waiting_add, fsm_list_name = Some (py ''B''),
              fsm_menu_message_id = Some 8\<rparr>)\<rparr>,
       Some (Inr (Edit_text 8 (Add_prompt (py ''B'')) None kb_cancel)))}"
    unfolding example_literals handle_add by simp
  show "fsm_state (sessions
       \<lparr>store = [],
        sessions = (sessions start_world)
          ((10, 1) := \<lparr>fsm_state = Some waiting_add, fsm_list_name = Some (py ''A''),
              fsm_menu_message_id = Some 7\<rparr>,
           (20, 1) := \<lparr>fsm_state = Some waiting_add, fsm_list_name = Some (py ''B''),
              fsm_menu_message_id = Some 8\<rparr>)\<rparr> (10, 1)) = Some waiting_add"
    by simp
  show "fsm_state (sessions
       \<lparr>store = [],
        sessions = (sessions start_world)
          ((10, 1) := \<lparr>fsm_state = Some waiting_add, fsm_list_name = Some (py ''A''),
              fsm_menu_message_id = Some 7\<rparr>,
           (20, 1) := \<lparr>fsm_state = Some waiting_add, fsm_list_name = Some (py ''B''),
              fsm_menu_message_id = Some 8\<rparr>)\<rparr> (20, 1)) = Some waiting_add"
    by simp
  have wt: "fsm_state (sessions
       \<lparr>store = [],
        sessions = (sessions start_world)
          ((10, 1) := \<lparr>fsm_state = Some waiting_add, fsm_list_name = Some (py ''A''),
              fsm_menu_message_id = Some 7\<rparr>,
           (20, 1) := \<lparr>fsm_state = Some waiting_add, fsm_list_name = Some (py ''B''),
              fsm_menu_message_id = Some 8\<rparr>)\<rparr> (10, 1)) = Some waiting_add"
    by simp
  show "handle int_decimal
       \<lparr>store = [],
        sessions = (sessions start_world)
          ((10, 1) := \<lparr>fsm_state = Some waiting_add, fsm_list_name = Some (py ''A''),
              fsm_menu_message_id = Some 7\<rparr>,
           (20, 1) := \<lparr>fsm_state = Some waiting_add, fsm_list_name = Some (py ''B''),
              fsm_menu_message_id = Some 8\<rparr>)\<rparr>
       10 1 (Message (Some (py ''x''))) =
     {(\<lparr>store = [(1, py ''A'', py ''x'')],
        sessions = (sessions start_world)
          ((10, 1) := \<lparr>fsm_state = Some waiting_add, fsm_list_name = Some (py ''A''),
              fsm_menu_message_id = Some 7\<rparr>,
           (20, 1) := \<lparr>fsm_state = Some waiting_add, fsm_list_name = Some (py ''B''),
              fsm_menu_message_id = Some 8\<rparr>,
           (10, 1) := idle)\<rparr>,
       Some (Inr (Edit_text 7 (Editor (py ''A'') 1 [py ''x''] False) (Some (Added_skipped 1 0))
                (kb_edit (py ''A'')))))}"
    unfolding handle_message_waiting [OF wt] by (simp add: msg_add_x_into_A)
qed

text \<open>
  C8, amended. There is one conversation state for a chat and a user. \<open>cb_add\<close> sets it
  to waiting with the list and the anchor of this start, whatever it was before, so
  after a second start in the same chat nothing of the first is left. A text sent in
  that chat then is added to the list of the second start and answered at its anchor;
  the views of every other list, the list of the first start among them when it is a
  different one, stay as they were, and the user is idle in that chat. The two starts
  leave the table and all other states alone. An update of another user or in another
  chat, a start among them, leaves the state of this chat and user as it is.
\<close>

theorem new_start_in_the_chat_discards_the_session_before:
  "cb_add st (py ''add:'' @ l2) m2 =
     (\<lparr>fsm_state = Some waiting_add, fsm_list_name = Some l2, fsm_menu_message_id = Some m2\<rparr>,
      Inr (Edit_text m2 (Add_prompt l2) None kb_cancel))
   \<and> fst (cb_add (fst (cb_add st (py ''add:'' @ l1) m1)) (py ''add:'' @ l2) m2) =
       \<lparr>fsm_state = Some waiting_add, fsm_list_name = Some l2, fsm_menu_message_id = Some m2\<rparr>
   \<and> (let st2 = fst (cb_add (fst (cb_add st (py ''add:'' @ l1) m1)) (py ''add:'' @ l2) m2);
            ls = filter (\<lambda>line. line \<noteq> []) (map strip (splitlines t));
            (st3, db3, out) = msg_add st2 db u (Some t)
        in st3 = idle
           \<and> (\<exists>a s. out = Inr (Edit_text m2 (text_edit db3 u l2) (Some (Added_skipped a s))
                                  (kb_edit l2)))
           \<and> set db3 = set db \<union> (\<lambda>x. (u, l2, x)) ` set ls
           \<and> (\<forall>u' l'. (u', l') \<noteq> (u, l2) \<longrightarrow> get_words db3 u' l' = get_words db u' l')
           \<and> (l1 \<noteq> l2 \<longrightarrow> get_words db3 u l1 = get_words db u l1))
   \<and> (\<forall>w1 o1 w2 o2 w3 o3.
         (w1, o1) \<in> handle int_of w c u (Callback (py ''add:'' @ l1) m1)
         \<and> (w2, o2) \<in> handle int_of w1 c u (Callback (py ''add:'' @ l2) m2)
         \<and> (w3, o3) \<in> handle int_of w2 c u (Message (Some t)) \<longrightarrow>
           sessions w2 (c, u) =
             \<lparr>fsm_state = Some waiting_add, fsm_list_name = Some l2,
                fsm_menu_message_id = Some m2\<rparr>
           \<and> (\<forall>k. k \<noteq> (c, u) \<longrightarrow> sessions w2 k = sessions w k)
           \<and> store w2 = store w
           \<and> sessions w3 (c, u) = idle
           \<and> (\<exists>a s. o3 = Some (Inr (Edit_text m2 (text_edit (store w3) u l2)
                                        (Some (Added_skipped a s)) (kb_edit l2))))
           \<and> (\<forall>u' l'. (u', l') \<noteq> (u, l2) \<longrightarrow>
                 get_words (store w3) u' l' = get_words (store w) u' l'))
   \<and> (\<forall>c' u' upd w' out.
         (c', u') \<noteq> (c, u) \<and> (w', out) \<in> handle int_of w c' u' upd \<longrightarrow>
           sessions w' (c, u) = sessions w (c, u))"
proof (intro conjI allI impI)
  let ?s2 = "\<lparr>fsm_state = Some waiting_add, fsm_list_name = Some l2,
              fsm_menu_message_id = Some m2\<rparr>"
  show "cb_add st (py ''add:'' @ l2) m2 = (?s2, Inr (Edit_text m2 (Add_prompt l2) None kb_cancel))"
    by (rule cb_add_add)
  show c2: "fst (cb_add (fst (cb_add st (py ''add:'' @ l1) m1)) (py ''add:'' @ l2) m2) = ?s2"
    by (simp add: cb_add_add)
  obtain st3 db3 out where r: "msg_add ?s2 db u (Some t) = (st3, db3, out)"
    by (cases "msg_add ?s2 db u (Some t)")
  note M = msg_add_second_session [OF refl r]
  show "let st2 = fst (cb_add (fst (cb_add st (py ''add:'' @ l1) m1)) (py ''add:'' @ l2) m2);
            ls = filter (\<lambda>line. line \<noteq> []) (map strip (splitlines t));
            (st3, db3, out) = msg_add st2 db u (Some t)
        in st3 = idle
           \<and> (\<exists>a s. out = Inr (Edit_text m2 (text_edit db3 u l2) (Some (Added_skipped a s))
                                  (kb_edit l2)))
           \<and> set db3 = set db \<union> (\<lambda>x. (u, l2, x)) ` set ls
           \<and> (\<forall>u' l'. (u', l') \<noteq> (u, l2) \<longrightarrow> get_words db3 u' l' = get_words db u' l')
           \<and> (l1 \<noteq> l2 \<longrightarrow> get_words db3 u l1 = get_words db u l1)"
    unfolding Let_def c2 r prod.case
  proof (intro conjI allI impI)
    show "st3 = idle" by (rule M(1))
    show "\<exists>a s. out = Inr (Edit_text m2 (text_edit db3 u l2) (Some (Added_skipped a s))
                           (kb_edit l2))"
      by (rule M(2))
    show "set db3 = set db \<union> (\<lambda>x. (u, l2, x)) `
            set (filter (\<lambda>line. line \<noteq> []) (map strip (splitlines t)))"
      by (rule M(3))
    show "get_words db3 u' l' = get_words db u' l'" if "(u', l') \<noteq> (u, l2)" for u' l'
      using that by (rule M(4))
    show "get_words db3 u l1 = get_words db u l1" if "l1 \<noteq> l2"
      using that M(4) [of u l1] by simp
  qed
next
  fix w1 o1 w2 o2 w3 o3
  let ?s2 = "\<lparr>fsm_state = Some waiting_add, fsm_list_name = Some l2,
              fsm_menu_message_id = Some m2\<rparr>"
  assume a: "(w1, o1) \<in> handle int_of w c u (Callback (py ''add:'' @ l1) m1)
         \<and> (w2, o2) \<in> handle int_of w1 c u (Callback (py ''add:'' @ l2) m2)
         \<and> (w3, o3) \<in> handle int_of w2 c u (Message (Some t))"
  then have w1: "store w1 = store w" "\<And>k. k \<noteq> (c, u) \<Longrightarrow> sessions w1 k = sessions w k"
    by (auto simp: handle_add)
  from a have w2s: "sessions w2 (c, u) = ?s2" and w2o: "\<And>k. k \<noteq> (c, u) \<Longrightarrow> sessions w2 k = sessions w1 k"
    and w2d: "store w2 = store w1"
    by (auto simp: handle_add)
  show "sessions w2 (c, u) = ?s2" by (rule w2s)
  show "sessions w2 k = sessions w k" if "k \<noteq> (c, u)" for k
    using that w1(2) w2o by simp
  show d: "store w2 = store w" using w1(1) w2d by simp
  have wt: "fsm_state (sessions w2 (c, u)) = Some waiting_add" by (simp add: w2s)
  obtain st3 db3 out where r: "msg_add ?s2 (store w) u (Some t) = (st3, db3, out)"
    by (cases "msg_add ?s2 (store w) u (Some t)")
  note M = msg_add_second_session [OF refl r]
  from a have "(w3, o3) \<in> handle int_of w2 c u (Message (Some t))" by simp
  then have 3: "store w3 = db3" "sessions w3 (c, u) = st3" "o3 = Some out"
    unfolding handle_message_waiting [OF wt] w2s d r by simp_all
  show "sessions w3 (c, u) = idle" using 3 M(1) by simp
  show "\<exists>a s. o3 = Some (Inr (Edit_text m2 (text_edit (store w3) u l2)
                                 (Some (Added_skipped a s)) (kb_edit l2)))"
    using 3 M(2) by auto
  show "get_words (store w3) u' l' = get_words (store w) u' l'" if "(u', l') \<noteq> (u, l2)" for u' l'
    using that 3 M(4) [of u' l'] by simp
next
  fix c' u' upd w' out
  assume "(c', u') \<noteq> (c, u) \<and> (w', out) \<in> handle int_of w c' u' upd"
  then show "sessions w' (c, u) = sessions w (c, u)"
    using handle_other_key by blast
qed

theorem new_start_in_the_chat_discards_the_session_before_witness:
  "py ''A'' \<noteq> py ''B''
   \<and> fst (cb_add (fst (cb_add idle (py ''add:A'') 7)) (py ''add:B'') 8) =
       \<lparr>fsm_state = Some waiting_add, fsm_list_name = Some (py ''B''),
          fsm_menu_message_id = Some 8\<rparr>
   \<and> msg_add (fst (cb_add (fst (cb_add idle (py ''add:A'') 7)) (py ''add:B'') 8)) [] 1
         (Some (py ''x''))
       = (idle, [(1, py ''B'', py ''x'')],
          Inr (Edit_text 8 (Editor (py ''B'') 1 [py ''x''] False) (Some (Added_skipped 1 0))
                 (kb_edit (py ''B''))))
   \<and> get_words [(1, py ''B'', py ''x'')] 1 (py ''A'') = get_words [] 1 (py ''A'')"
proof -
  let ?s2 = "\<lparr>fsm_state = Some waiting_add, fsm_list_name = Some (py ''B''),
              fsm_menu_message_id = Some 8\<rparr>"
  have ne: "py ''A'' \<noteq> py ''B''" by (simp add: py_def)
  have dA: "py ''add:A'' = py ''add:'' @ py ''A''" and dB: "py ''add:B'' = py ''add:'' @ py ''B''"
    by (simp_all add: py_def)
  note T = new_start_in_the_chat_discards_the_session_before
             [of idle "py ''B''" 8 "py ''A''" 7 "py ''x''" "[]" 1 int_decimal start_world 10]
  have c: "fst (cb_add (fst (cb_add idle (py ''add:A'') 7)) (py ''add:B'') 8) = ?s2"
    unfolding dA dB using T by blast
  have B: "py ''B'' = [66]" and x: "py ''x'' = [120]" by (simp_all add: py_def)
  have lines: "filter (\<lambda>line. line \<noteq> []) (map strip (splitlines [120])) = [[120]]"
    by (simp add: splitlines_def islinebreak_def strip_def isspace_def)
  have loop: "add_lines [] 1 [66] [[120]] 0 0 = (1, 0, [(1, [66], [120])])"
    by (simp add: add_word_cases strip_def isspace_def)
  have ed: "text_edit [(1, [66], [120])] 1 [66] = Editor [66] 1 [[120]] False"
    by (simp add: text_edit_def get_words_def)
  have m: "msg_add ?s2 [] 1 (Some (py ''x''))
       = (idle, [(1, py ''B'', py ''x'')],
          Inr (Edit_text 8 (Editor (py ''B'') 1 [py ''x''] False) (Some (Added_skipped 1 0))
                 (kb_edit (py ''B''))))"
    unfolding B x msg_add_def
    by (simp add: lines loop ed state_clear_idle del: list.map filter.simps add_lines.simps)
  have g: "get_words [(1, py ''B'', py ''x'')] 1 (py ''A'') = get_words [] 1 (py ''A'')"
    using T [THEN conjunct2, THEN conjunct2, THEN conjunct1] ne
    unfolding Let_def dA [symmetric] dB [symmetric] c m prod.case
    by blast
  show ?thesis using ne c m g by (simp only: simp_thms)
qed

section \<open>The session state machine\<close>

lemma route_start_menu:
  "route int_of st db u Cmd_start = {(idle, db, Some (Inr (Answer (text_main db u) (Some kb_main))))}"
  "route int_of st db u Cmd_menu = {(idle, db, Some (Inr (Answer (text_main db u) (Some kb_main))))}"
  by (simp_all add: route_def replied_def cmd_start_def cmd_menu_def state_clear_idle)

lemma route_back:
  "route int_of st db u (Callback (py ''back'') m) =
     {(idle, db, Some (Inr (Edit_text m (text_main db u) None kb_main)))}"
  by (simp add: route_def replied_def cb_back_def state_clear_idle)

lemma route_edit:
  "startswith d (py ''edit:'') \<Longrightarrow> (st', db', out) \<in> route int_of st db u (Callback d m) \<Longrightarrow>
   st' = idle \<and> db' = db"
  by (auto simp: route_def replied_def cb_back_def cb_edit_def Let_def state_clear_idle
        split: sum.splits if_splits)

lemma route_text:
  assumes "fsm_state st = Some waiting_add" and "session_ok st"
    and "(st', db', out) \<in> route int_of st db u (Message (Some t))"
  shows "st' = idle"
proof -
  from assms(1,2) obtain l m where "fsm_list_name st = Some l" "fsm_menu_message_id st = Some m"
    by (auto simp: session_ok_def)
  then have "fst (msg_add st db u (Some t)) = state_clear st"
    by (simp add: msg_add_text Let_def split: prod.splits)
  with assms(1,3) show ?thesis
    by (auto simp: route_message_waiting replied_def state_clear_idle split: prod.splits)
qed

lemma route_no_text:
  "(st', db', out) \<in> route int_of st db u (Message None) \<Longrightarrow> st' = st \<and> db' = db"
  by (auto simp: route_def replied_def msg_add_def split: if_splits option.splits)

lemma route_other_callback:
  assumes "d \<noteq> py ''back''" and "\<not> startswith d (py ''edit:'')" and "\<not> startswith d (py ''add:'')"
    and "(st', db', out) \<in> route int_of st db u (Callback d m)"
  shows "st' = st"
  using assms by (auto simp: route_def stateless_def split: if_splits prod.splits)

lemma remove_back_prefix_routes:
  "py ''remove_back:'' @ l \<noteq> py ''back''"
  "\<not> startswith (py ''remove_back:'' @ l) (py ''edit:'')"
  "\<not> startswith (py ''remove_back:'' @ l) (py ''add:'')"
  by (simp_all add: py_def startswith_def)

lemma text_main_empty: "text_main [] u = Main_menu 0 0"
  by (simp add: text_main_def get_words_def)

text \<open>
  C9, as stated, fails for a text and a start command sent in another chat. User 1
  starts an add on list A in chat 10 and is awaited to send text there. The text \<open>x\<close>
  that the user sends in chat 20 is taken by no handler, since the state of chat 20 is
  idle, and the start command in chat 20 clears the state of chat 20 only: after either
  the user is still awaited to send text in chat 10.
\<close>

theorem text_in_another_chat_keeps_the_session_waiting:
  "handle int_decimal start_world 10 1 (Callback (py ''add:A'') 7) =
     {(\<lparr>store = [],
        sessions = (sessions start_world)
          ((10, 1) := \<lparr>fsm_state = Some waiting_add, fsm_list_name = Some (py ''A''),
              fsm_menu_message_id = Some 7\<rparr>)\<rparr>,
       Some (Inr (Edit_text 7 (Add_prompt (py ''A'')) None kb_cancel)))}
   \<and> fsm_state (sessions
       \<lparr>store = [],
        sessions = (sessions start_world)
          ((10, 1) := \<lparr>fsm_state = Some waiting_add, fsm_list_name = Some (py ''A''),
              fsm_menu_message_id = Some 7\<rparr>)\<rparr> (10, 1)) = Some waiting_add
   \<and> handle int_decimal
       \<lparr>store = [],
        sessions = (sessions start_world)
          ((10, 1) := \<lparr>fsm_state = Some waiting_add, fsm_list_name = Some (py ''A''),
              fsm_menu_message_id = Some 7\<rparr>)\<rparr>
       20 1 (Message (Some (py ''x''))) =
     {(\<lparr>store = [],
        sessions = (sessions start_world)
          ((10, 1) := \<lparr>fsm_state = Some waiting_add, fsm_list_name = Some (py ''A''),
              fsm_menu_message_id = Some 7\<rparr>)\<rparr>,
       None)}
   \<and> handle int_decimal
       \<lparr>store = [],
        sessions = (sessions start_world)
          ((10, 1) := \<lparr>fsm_state = Some waiting_add, fsm_list_name = Some (py ''A''),
              fsm_menu_message_id = Some 7\<rparr>)\<rparr>
       20 1 Cmd_start =
     {(\<lparr>store = [],
        sessions = (sessions start_world)
          ((10, 1) := \<lparr>fsm_state = Some waiting_add, fsm_list_name = Some (py ''A''),
              fsm_menu_message_id = Some 7\<rparr>,
           (20, 1) := idle)\<rparr>,
       Some (Inr (Answer (Main_menu 0 0) (Some kb_main))))}
   \<and> fsm_state (sessions
       \<lparr>store = [],
        sessions = (sessions start_world)
          ((10, 1) := \<lparr>fsm_state = Some waiting_add, fsm_list_name = Some (py ''A''),
              fsm_menu_message_id = Some 7\<rparr>,
           (20, 1) := idle)\<rparr> (10, 1)) = Some waiting_add"
proof (intro conjI)
  show "handle int_decimal start_world 10 1 (Callback (py ''add:A'') 7) =
     {(\<lparr>store = [],
        sessions = (sessions start_world)
          ((10, 1) := \<lparr>fsm_state = Some waiting_add, fsm_list_name = Some (py ''A''),
              fsm_menu_message_id = Some 7\<rparr>)\<rparr>,
       Some (Inr (Edit_text 7 (Add_prompt (py ''A'')) None kb_cancel)))}"
    unfolding example_literals handle_add by (simp add: start_world_def)
  show "fsm_state (sessions
       \<lparr>store = [],
        sessions = (sessions start_world)
          ((10, 1) := \<lparr>fsm_state = Some waiting_add, fsm_list_name = Some (py ''A''),
              fsm_menu_message_id = Some 7\<rparr>)\<rparr> (10, 1)) = Some waiting_add"
    by simp
  have idle: "fsm_state (sessions
       \<lparr>store = [],
        sessions = (sessions start_world)
          ((10, 1) := \<lparr>fsm_state = Some waiting_add, fsm_list_name = Some (py ''A''),
              fsm_menu_message_id = Some 7\<rparr>)\<rparr> (20, 1)) \<noteq> Some waiting_add"
    by (simp add: start_world_def idle_def)
  show "handle int_decimal
       \<lparr>store = [],
        sessions = (sessions start_world)
          ((10, 1) := \<lparr>fsm_state = Some waiting_add, fsm_list_name = Some (py ''A''),
              fsm_menu_message_id = Some 7\<rparr>)\<rparr>
       20 1 (Message (Some (py ''x''))) =
     {(\<lparr>store = [],
        sessions = (sessions start_world)
          ((10, 1) := \<lparr>fsm_state = Some waiting_add, fsm_list_name = Some (py ''A''),
              fsm_menu_message_id = Some 7\<rparr>)\<rparr>,
       None)}"
    using idle by (rule handle_message_not_waiting)
  show "handle int_decimal
       \<lparr>store = [],
        sessions = (sessions start_world)
          ((10, 1) := \<lparr>fsm_state = Some waiting_add, fsm_list_name = Some (py ''A''),
              fsm_menu_message_id = Some 7\<rparr>)\<rparr>
       20 1 Cmd_start =
     {(\<lparr>store = [],
        sessions = (sessions start_world)
          ((10, 1) := \<lparr>fsm_state = Some waiting_add, fsm_list_name = Some (py ''A''),
              fsm_menu_message_id = Some 7\<rparr>,
           (20, 1) := idle)\<rparr>,
       Some (Inr (Answer (Main_menu 0 0) (Some kb_main))))}"
    by (simp add: handle_def route_start_menu text_main_empty)
  show "fsm_state (sessions
       \<lparr>store = [],
        sessions = (sessions start_world)
          ((10, 1) := \<lparr>fsm_state = Some waiting_add, fsm_list_name = Some (py ''A''),
              fsm_menu_message_id = Some 7\<rparr>,
           (20, 1) := idle)\<rparr> (10, 1)) = Some waiting_add"
    by simp
qed

text \<open>
  The back button of the removal picker, pressed in chat 10 by the user of the example:
  \<open>cb_remove_back\<close> has no \<open>state\<close> parameter, it shows the editor, and the state of the
  chat is as before. The theorem after this one says nothing about this button.
\<close>

lemma remove_back_keeps_the_session_waiting:
  "handle int_decimal
       \<lparr>store = [],
        sessions = (sessions start_world)
          ((10, 1) := \<lparr>fsm_state = Some waiting_add, fsm_list_name = Some (py ''A''),
              fsm_menu_message_id = Some 7\<rparr>)\<rparr>
       10 1 (Callback (py ''remove_back:A'') 9) =
     {(\<lparr>store = [],
        sessions = (sessions start_world)
          ((10, 1) := \<lparr>fsm_state = Some waiting_add, fsm_list_name = Some (py ''A''),
              fsm_menu_message_id = Some 7\<rparr>)\<rparr>,
       Some (Inr (Edit_text 9 (Editor (py ''A'') 0 [] False) None (kb_edit (py ''A'')))))}"
proof -
  have r: "py ''remove_back:A'' \<noteq> py ''back''"
      "\<not> startswith (py ''remove_back:A'') (py ''edit:'')"
      "py ''remove_back:A'' \<noteq> py ''roll''"
      "\<not> startswith (py ''remove_back:A'') (py ''add:'')"
      "\<not> startswith (py ''remove_back:A'') (py ''remove:'')"
      "startswith (py ''remove_back:A'') (py ''remove_back:'')"
    by (simp_all add: py_def startswith_def)
  have sp: "split_colon_1 (py ''remove_back:A'') = Inr (py ''A'')"
    by (simp add: split_colon_1_def py_split_def getitem_def py_def)
  have ed: "text_edit [] 1 (py ''A'') = Editor (py ''A'') 0 [] False"
    by (simp add: text_edit_def get_words_def)
  show ?thesis
    by (simp add: handle_def route_def r stateless_def cb_remove_back_def sp ed)
qed

text \<open>
  C9, amended. In a world the router reaches, let user \<open>u\<close> be awaited to send text in
  chat \<open>c\<close>. An update of another user or in another chat leaves this state as it is. Of
  the updates of \<open>u\<close> in \<open>c\<close>, the start and menu commands, every message with a text,
  the \<open>back\<close> callback and the \<open>edit:\<close> callbacks return the user to idle in \<open>c\<close>, and an
  \<open>add:\<close> callback replaces the session by the new one. Apart from these updates, and
  from the back of the removal picker, of which nothing is said here, no update of \<open>u\<close>
  in \<open>c\<close> changes the state. So after a text submitted in \<open>c\<close> the user is idle in \<open>c\<close>.
\<close>

theorem session_left_only_by_listed_updates:
  assumes "reachable_world w" and "fsm_state (sessions w (c, u)) = Some waiting_add"
    and "(w', out) \<in> handle int_of w c' u' upd"
  shows
    "((c', u') \<noteq> (c, u) \<longrightarrow> sessions w' (c, u) = sessions w (c, u))
     \<and> ((c', u') = (c, u) \<longrightarrow>
          (upd = Cmd_start \<or> upd = Cmd_menu \<or> (\<exists>t. upd = Message (Some t))
             \<or> (\<exists>m. upd = Callback (py ''back'') m)
             \<or> (\<exists>d m. upd = Callback d m \<and> startswith d (py ''edit:''))
           \<longrightarrow> sessions w' (c, u) = idle)
          \<and> (\<forall>l m. upd = Callback (py ''add:'' @ l) m \<longrightarrow>
                 sessions w' (c, u) =
                   \<lparr>fsm_state = Some waiting_add, fsm_list_name = Some l,
                      fsm_menu_message_id = Some m\<rparr>)
          \<and> (sessions w' (c, u) = sessions w (c, u)
               \<or> upd = Cmd_start \<or> upd = Cmd_menu \<or> (\<exists>t. upd = Message (Some t))
               \<or> (\<exists>m. upd = Callback (py ''back'') m)
               \<or> (\<exists>d m. upd = Callback d m \<and> startswith d (py ''edit:''))
               \<or> (\<exists>l m. upd = Callback (py ''add:'' @ l) m)
               \<or> (\<exists>l m. upd = Callback (py ''remove_back:'' @ l) m)))"
proof -
  from assms(3) obtain st' db' where
    r: "(st', db', out) \<in> route int_of (sessions w (c', u')) (store w) u' upd"
    and s: "sessions w' = (sessions w)((c', u') := st')"
    using sessions_handle by blast
  have ok: "session_ok (sessions w (c, u))" using assms(1) by (rule reachable_world_session_ok)
  show ?thesis
  proof (intro conjI impI allI)
    show "sessions w' (c, u) = sessions w (c, u)" if "(c', u') \<noteq> (c, u)"
      using s that by auto
  next
    assume k: "(c', u') = (c, u)"
    assume e: "upd = Cmd_start \<or> upd = Cmd_menu \<or> (\<exists>t. upd = Message (Some t))
             \<or> (\<exists>m. upd = Callback (py ''back'') m)
             \<or> (\<exists>d m. upd = Callback d m \<and> startswith d (py ''edit:''))"
    have "st' = idle"
      using e r k route_text [OF assms(2) ok] route_edit
      by (auto simp: route_start_menu route_back)
    then show "sessions w' (c, u) = idle" using s k by simp
  next
    fix l m
    assume k: "(c', u') = (c, u)" and a: "upd = Callback (py ''add:'' @ l) m"
    show "sessions w' (c, u) =
            \<lparr>fsm_state = Some waiting_add, fsm_list_name = Some l, fsm_menu_message_id = Some m\<rparr>"
      using r s k a by (simp add: route_add)
  next
    assume k: "(c', u') = (c, u)"
    show "sessions w' (c, u) = sessions w (c, u)
               \<or> upd = Cmd_start \<or> upd = Cmd_menu \<or> (\<exists>t. upd = Message (Some t))
               \<or> (\<exists>m. upd = Callback (py ''back'') m)
               \<or> (\<exists>d m. upd = Callback d m \<and> startswith d (py ''edit:''))
               \<or> (\<exists>l m. upd = Callback (py ''add:'' @ l) m)
               \<or> (\<exists>l m. upd = Callback (py ''remove_back:'' @ l) m)"
    proof (cases upd)
      case Cmd_start
      then show ?thesis by simp
    next
      case Cmd_menu
      then show ?thesis by simp
    next
      case (Message t)
      show ?thesis
      proof (cases t)
        case None
        with Message r k have "st' = sessions w (c, u)" using route_no_text by auto
        then show ?thesis using s k by simp
      next
        case (Some x)
        with Message show ?thesis by simp
      qed
    next
      case (Callback d m)
      show ?thesis
      proof (cases "d = py ''back'' \<or> startswith d (py ''edit:'') \<or> startswith d (py ''add:'')")
        case True
        then show ?thesis using Callback by (auto simp: startswith_iff)
      next
        case False
        with Callback r k have "st' = sessions w (c, u)"
          using route_other_callback [of d st' db' out int_of "sessions w (c, u)" "store w" u m]
          by simp
        then show ?thesis using s k by simp
      qed
    qed
  qed
qed

theorem session_left_only_by_listed_updates_witness:
  "reachable_world
     \<lparr>store = [],
        sessions = (sessions start_world)
          ((10, 1) := \<lparr>fsm_state = Some waiting_add, fsm_list_name = Some (py ''A''),
              fsm_menu_message_id = Some 7\<rparr>)\<rparr>
   \<and> fsm_state (sessions
       \<lparr>store = [],
        sessions = (sessions start_world)
          ((10, 1) := \<lparr>fsm_state = Some waiting_add, fsm_list_name = Some (py ''A''),
              fsm_menu_message_id = Some 7\<rparr>)\<rparr> (10, 1)) = Some waiting_add
   \<and> (\<lparr>store = [(1, py ''A'', py ''x'')],
        sessions = (sessions start_world)
          ((10, 1) := \<lparr>fsm_state = Some waiting_add, fsm_list_name = Some (py ''A''),
              fsm_menu_message_id = Some 7\<rparr>,
           (10, 1) := idle)\<rparr>,
        Some (Inr (Edit_text 7 (Editor (py ''A'') 1 [py ''x''] False) (Some (Added_skipped 1 0))
                (kb_edit (py ''A'')))))
       \<in> handle int_decimal
            \<lparr>store = [],
        sessions = (sessions start_world)
          ((10, 1) := \<lparr>fsm_state = Some waiting_add, fsm_list_name = Some (py ''A''),
              fsm_menu_message_id = Some 7\<rparr>)\<rparr>
            10 1 (Message (Some (py ''x'')))
   \<and> sessions
       \<lparr>store = [(1, py ''A'', py ''x'')],
        sessions = (sessions start_world)
          ((10, 1) := \<lparr>fsm_state = Some waiting_add, fsm_list_name = Some (py ''A''),
              fsm_menu_message_id = Some 7\<rparr>,
           (10, 1) := idle)\<rparr> (10, 1) = idle"
proof -
  let ?w1 = "\<lparr>store = [],
        sessions = (sessions start_world)
          ((10, 1) := \<lparr>fsm_state = Some waiting_add, fsm_list_name = Some (py ''A''),
              fsm_menu_message_id = Some 7\<rparr>)\<rparr>"
  let ?w3 = "\<lparr>store = [(1, py ''A'', py ''x'')],
        sessions = (sessions start_world)
          ((10, 1) := \<lparr>fsm_state = Some waiting_add, fsm_list_name = Some (py ''A''),
              fsm_menu_message_id = Some 7\<rparr>,
           (10, 1) := idle)\<rparr>"
  have "(?w1, Some (Inr (Edit_text 7 (Add_prompt (py ''A'')) None kb_cancel)))
          \<in> handle int_decimal start_world 10 1 (Callback (py ''add:A'') 7)"
    unfolding example_literals handle_add by (simp add: start_world_def)
  then have re: "reachable_world ?w1"
    using reachable_world.step [OF reachable_world.start] by blast
  have wt: "fsm_state (sessions ?w1 (10, 1)) = Some waiting_add" by simp
  have h: "(?w3, Some (Inr (Edit_text 7 (Editor (py ''A'') 1 [py ''x''] False) (Some (Added_skipped 1 0))
                (kb_edit (py ''A'')))))
             \<in> handle int_decimal ?w1 10 1 (Message (Some (py ''x'')))"
    unfolding handle_message_waiting [OF wt] by (simp add: msg_add_x_into_A)
  have "sessions ?w3 (10, 1) = idle"
    using session_left_only_by_listed_updates [OF re wt h] by blast
  with re wt h show ?thesis by (intro conjI)
qed

end
